theory Spec2Isabelle
  imports Complex_Main "HOL-Library.Sublist"
begin

section \<open>Errors\<close>

text \<open>
  The exceptions the modelled code can raise. The first group are the classes of
  \<^verbatim>\<open>simple_salesforce.exceptions\<close> that \<^verbatim>\<open>exception_handler\<close> selects; the
  others are the exceptions that the statements of \<^verbatim>\<open>util.py\<close> and \<^verbatim>\<open>bulk_v2.py\<close>
  and the library functions they call raise.
\<close>

datatype sf_class =
    SalesforceMoreThanOneRecord
  | SalesforceMalformedRequest
  | SalesforceExpiredSession
  | SalesforceRefusedRequest
  | SalesforceResourceNotFound
  | SalesforceGeneralError

type_synonym json = "(string \<times> string option) list"

datatype response_content = JsonContent json | TextContent string

datatype error =
    SalesforceError sf_class string int string response_content
      \<comment> \<open>\<^verbatim>\<open>exc_cls(result.url, result.status_code, name, response_content)\<close>\<close>
  | RuntimeError
      \<comment> \<open>a \<^verbatim>\<open>StopIteration\<close> raised inside a generator body (PEP 479, Python 3.7 and later)\<close>
  | UnboundLocalError string
      \<comment> \<open>a local variable read before any assignment\<close>
  | IndexError
  | KeyError string
  | JSONDecodeError
  | ValueError
  | OverflowError
  | CsvError
      \<comment> \<open>\<^verbatim>\<open>_csv.Error\<close>\<close>

section \<open>Strings, numbers and iterators\<close>

text \<open>
  A Python \<^verbatim>\<open>str\<close> is a \<^typ>\<open>string\<close>; a \<^typ>\<open>char\<close> stands for a code point below 256.
  The \<^verbatim>\<open>csv\<close> module is the one of Python 3.11 and later, for which every character,
  NUL included, is an ordinary one.
\<close>

text \<open>\<^verbatim>\<open>sep.join(xs)\<close>\<close>

fun join :: "string \<Rightarrow> string list \<Rightarrow> string" where
  "join sep [] = []"
| "join sep [x] = x"
| "join sep (x # y # ys) = x @ sep @ join sep (y # ys)"

text \<open>
  A number given for \<^verbatim>\<open>split_size\<close>: an \<^verbatim>\<open>int\<close>, or a \<^verbatim>\<open>float\<close>, which is a finite
  value, an infinity or not a number.
\<close>

datatype py_number = PyInt int | PyFloat rat | PyInf | PyNaN

text \<open>\<^verbatim>\<open>int(x)\<close> on a finite number: truncation towards zero.\<close>

definition py_int :: "rat \<Rightarrow> int" where
  "py_int x = (if 0 \<le> x then \<lfloor>x\<rfloor> else \<lceil>x\<rceil>)"

text \<open>
  \<^verbatim>\<open>int(split_size * 1024 * 1024)\<close>. On an \<^verbatim>\<open>int\<close> the product is exact. On a
  \<^verbatim>\<open>float\<close> each product scales by a power of two, which is exact unless it leaves the
  range of a double and becomes an infinity; \<^verbatim>\<open>int\<close> raises \<^verbatim>\<open>OverflowError\<close> on an
  infinity and \<^verbatim>\<open>ValueError\<close> on what is not a number.
\<close>

definition max_bytes_of :: "py_number \<Rightarrow> error + int" where
  "max_bytes_of split_size =
     (case split_size of
        PyInt i \<Rightarrow> Inr (i * 1024 * 1024)
      | PyFloat x \<Rightarrow>
          if \<bar>x * 1024 * 1024\<bar> \<ge> 2 ^ 1024 then Inl OverflowError
          else Inr (py_int (x * 1024 * 1024))
      | PyInf \<Rightarrow> Inl OverflowError
      | PyNaN \<Rightarrow> Inl ValueError)"

text \<open>
  An iterator, and a generator among them, is given by what it does when it is run to its
  end: the items it hands out, in order, and the exception that ends it, \<open>None\<close> when it
  is simply exhausted.
\<close>

type_synonym 'a iterator = "'a list \<times> error option"

section \<open>Writing CSV text: \<^verbatim>\<open>csv.writer\<close> on \<^verbatim>\<open>io.StringIO(newline=None)\<close>\<close>

text \<open>
  A CSV row is the list of its fields, as \<^verbatim>\<open>csv.reader\<close> yields it and
  \<^verbatim>\<open>csv.writer.writerow\<close> takes it. The writers of \<^verbatim>\<open>util.py\<close> have the delimiter
  \<^verbatim>\<open>,\<close>, the quote character \<^verbatim>\<open>"\<close>, \<^verbatim>\<open>QUOTE_MINIMAL\<close> and the line terminator CR LF of
  the default dialect: a field is quoted when it holds the delimiter, the quote character
  or a character of the line terminator, a quote character inside it is doubled, and a
  row that is one empty field is written as \<^verbatim>\<open>""\<close>.
\<close>

type_synonym row = "string list"

definition needs_quoting :: "char \<Rightarrow> bool" where
  "needs_quoting c \<longleftrightarrow> c \<in> set [CHR '','', CHR 0x22, CHR 0x0D, CHR 0x0A]"

definition field_text :: "string \<Rightarrow> string" where
  "field_text field =
     (if list_ex needs_quoting field
      then [CHR 0x22] @ concat (map (\<lambda>c. if c = CHR 0x22 then [c, c] else [c]) field) @ [CHR 0x22]
      else field)"

definition record_text :: "row \<Rightarrow> string" where
  "record_text line =
     (if line = [[]] then [CHR 0x22, CHR 0x22] else join '','' (map field_text line))
     @ [CHR 0x0D, CHR 0x0A]"

text \<open>
  What \<^verbatim>\<open>io.StringIO(newline=None)\<close> stores for a text written to it: CR LF and a single
  CR both become LF.
\<close>

fun translate_newlines :: "string \<Rightarrow> string" where
  "translate_newlines [] = []"
| "translate_newlines (c # cs) =
     (if c = CHR 0x0D then
        (case cs of
           [] \<Rightarrow> [CHR 0x0A]
         | d # ds \<Rightarrow>
             if d = CHR 0x0A then CHR 0x0A # translate_newlines ds
             else CHR 0x0A # translate_newlines cs)
      else c # translate_newlines cs)"

text \<open>
  \<^verbatim>\<open>writer.writerow(line)\<close>: one \<^verbatim>\<open>write\<close> of the record to \<^verbatim>\<open>output\<close>, whose value
  before the call is the first argument and after it the result.
\<close>

definition writerow :: "string \<Rightarrow> row \<Rightarrow> string" where
  "writerow output line = output @ translate_newlines (record_text line)"

section \<open>The chunker: \<^verbatim>\<open>util.split_csv\<close>\<close>

text \<open>
  A chunk is the text that \<^verbatim>\<open>output.getvalue()\<close> returns. The timing and the progress
  lines that \<^verbatim>\<open>split_csv\<close> prints are left out.
\<close>

type_synonym chunk = string

text \<open>\<^verbatim>\<open>sum([len(item)+3 for item in line]) + 1\<close>\<close>

definition row_cost :: "row \<Rightarrow> int" where
  "row_cost line = sum_list (map (\<lambda>item. int (length item) + 3) line) + 1"

text \<open>
  The inner loop \<^verbatim>\<open>for line in chain([line], data)\<close>. The arguments are the text
  written so far, the counter \<^verbatim>\<open>n\<close> and the rows the iterator still holds. The result
  is the text written, \<^verbatim>\<open>n\<close>, what is left in the iterator, and whether the loop was
  left by \<^verbatim>\<open>break\<close> (that is, after the \<^verbatim>\<open>yield\<close>).
\<close>

fun inner_loop :: "int \<Rightarrow> chunk \<Rightarrow> int \<Rightarrow> row list \<Rightarrow> chunk \<times> int \<times> row list \<times> bool" where
  "inner_loop max_bytes output n [] = (output, n, [], False)"
| "inner_loop max_bytes output n (line # data) =
     (let output' = writerow output line;
          n' = n + row_cost line
      in if n' \<ge> max_bytes then (output', n', data, True)
         else inner_loop max_bytes output' n' data)"

lemma inner_loop_rest_le:
  "inner_loop max_bytes out n data = (out', m, rest, b) \<Longrightarrow> length rest \<le> length data"
proof (induction data arbitrary: out n)
  case Nil
  then show ?case by simp
next
  case (Cons line data)
  show ?case
  proof (cases "max_bytes \<le> n + row_cost line")
    case True
    with Cons.prems show ?thesis by (simp add: Let_def)
  next
    case False
    with Cons.prems have
      "inner_loop max_bytes (writerow out line) (n + row_cost line) data = (out', m, rest, b)"
      by (simp add: Let_def)
    from Cons.IH [OF this] show ?thesis by simp
  qed
qed

lemma inner_loop_rest_length:
  "inner_loop max_bytes out n (line # data) = (out', m, rest, b) \<Longrightarrow> length rest \<le> length data"
  by (auto simp: Let_def split: if_splits dest: inner_loop_rest_le)

text \<open>
  The outer loop \<^verbatim>\<open>for line in data\<close>. The third argument is the rows the iterator
  \<^verbatim>\<open>data\<close> still holds; the fourth is the value of the local \<^verbatim>\<open>output\<close>, \<open>None\<close>
  while it is unbound. The result is the chunks yielded inside the loop and the value of
  \<^verbatim>\<open>output\<close> when the rows have run out.
\<close>

function outer_loop :: "int \<Rightarrow> row \<Rightarrow> row list \<Rightarrow> chunk option \<Rightarrow> chunk list \<times> chunk option" where
  "outer_loop max_bytes header [] output = ([], output)"
| "outer_loop max_bytes header (line # data) output =
     (case inner_loop max_bytes (writerow [] header) 0 (line # data) of
        (output', n, rest, broke) \<Rightarrow>
          (case outer_loop max_bytes header rest (Some output') of
             (yielded, final) \<Rightarrow>
               ((if broke then output' # yielded else yielded), final)))"
  by pat_completeness auto
termination
proof (relation "measure (\<lambda>(max_bytes, header, data, out). length data)", goal_cases)
  case 1
  show ?case by simp
next
  case (2 max_bytes header line data x out' y n z rest broke)
  then have "inner_loop max_bytes (writerow [] header) 0 (line # data) = (out', n, rest, broke)"
    by simp
  from inner_loop_rest_length [OF this] show ?case by simp
qed

text \<open>
  The body of \<^verbatim>\<open>split_csv\<close> after \<^verbatim>\<open>header = next(data)\<close>, for the rows that
  \<^verbatim>\<open>data\<close> hands out after the header and the way \<^verbatim>\<open>data\<close> ends. When the rows have
  run out, either loop asks \<^verbatim>\<open>data\<close> for one more: an exception of the iterator leaves
  the generator there, after the chunks yielded so far. Otherwise both loops end. When the
  outer loop never ran, \<^verbatim>\<open>start\<close> is unbound at \<^verbatim>\<open>duration = default_timer()-start\<close>;
  if it ran, the statement after the loop yields \<^verbatim>\<open>output.getvalue()\<close> once more.
\<close>

definition split_rows :: "int \<Rightarrow> row \<Rightarrow> row list \<Rightarrow> error option \<Rightarrow> chunk iterator" where
  "split_rows max_bytes header data stop =
     (case outer_loop max_bytes header data None of
        (yielded, output) \<Rightarrow>
          (case stop of
             Some e \<Rightarrow> (yielded, Some e)
           | None \<Rightarrow>
               (case output of
                  None \<Rightarrow> (yielded, Some (UnboundLocalError ''start''))
                | Some output' \<Rightarrow> (yielded @ [output'], None))))"

text \<open>
  \<^verbatim>\<open>split_csv(data, split_size)\<close>, a generator: \<^verbatim>\<open>data\<close> is an iterator of rows.
  \<^verbatim>\<open>max_bytes\<close> is computed first. \<^verbatim>\<open>next(data)\<close> on an exhausted iterator raises
  \<^verbatim>\<open>StopIteration\<close> inside the generator, which surfaces as \<^verbatim>\<open>RuntimeError\<close>; an
  exception of the iterator surfaces as it is.
\<close>

definition split_csv :: "row iterator \<Rightarrow> py_number \<Rightarrow> chunk iterator" where
  "split_csv data split_size =
     (case max_bytes_of split_size of
        Inl e \<Rightarrow> ([], Some e)
      | Inr max_bytes \<Rightarrow>
          (case data of
             ([], stop) \<Rightarrow> ([], Some (case stop of None \<Rightarrow> RuntimeError | Some e \<Rightarrow> e))
           | (header # rows, stop) \<Rightarrow> split_rows max_bytes header rows stop))"

text \<open>
  The byte accounting of rows: what they add to \<^verbatim>\<open>n\<close> (the header row is written but
  not counted).
\<close>

definition rows_cost :: "row list \<Rightarrow> int" where
  "rows_cost rows = sum_list (map row_cost rows)"

section \<open>The result merger: the string operations of \<^verbatim>\<open>_get_job_results\<close>\<close>

text \<open>
  \<^verbatim>\<open>str.splitlines()\<close> ends a line at each of the characters below and at the pair
  CR LF; the separators U+2028 and U+2029 lie outside the modelled range.
\<close>

definition is_linebreak :: "char \<Rightarrow> bool" where
  "is_linebreak c \<longleftrightarrow>
     c \<in> set [CHR 0x0A, CHR 0x0B, CHR 0x0C, CHR 0x0D, CHR 0x1C, CHR 0x1D, CHR 0x1E, CHR 0x85]"

text \<open>
  \<^verbatim>\<open>s.splitlines()\<close>: the lines of \<^verbatim>\<open>s\<close> without their line ends. A line end at the very
  end of the text does not open a further, empty line.
\<close>

fun splitlines :: "string \<Rightarrow> string list" where
  "splitlines [] = []"
| "splitlines (c # cs) =
     (if c = CHR 0x0D then
        (case cs of
           [] \<Rightarrow> [[]]
         | d # ds \<Rightarrow> if d = CHR 0x0A then [] # splitlines ds else [] # splitlines cs)
      else if is_linebreak c then [] # splitlines cs
      else (case splitlines cs of
              [] \<Rightarrow> [[c]]
            | l # ls \<Rightarrow> (c # l) # ls))"

text \<open>\<^verbatim>\<open>empty_columns = '\n"","",'\<close>\<close>

definition empty_columns :: string where
  \<open>empty_columns = ''\<newline>"","",''\<close>

text \<open>
  The statements of \<^verbatim>\<open>_get_job_results\<close> after the three fetches, on the three decoded
  bodies. \<^verbatim>\<open>result_success.splitlines()[0]\<close> raises \<^verbatim>\<open>IndexError\<close> when the body has
  no line; \<^verbatim>\<open>xs[1:]\<close> is \<^term>\<open>drop 1 xs\<close>.
\<close>

definition merge_results :: "string \<Rightarrow> string \<Rightarrow> string \<Rightarrow> error + string" where
  "merge_results result_success result_failed result_unprocessed =
     (case splitlines result_success of
        [] \<Rightarrow> Inl IndexError
      | first_line # _ \<Rightarrow>
          (let combined_result = first_line;
               combined_result =
                 (if length (splitlines result_success) > 1
                  then combined_result @ ''\<newline>''
                         @ join ''\<newline>'' (drop 1 (splitlines result_success))
                  else combined_result);
               combined_result =
                 (if length (splitlines result_failed) > 1
                  then combined_result @ ''\<newline>''
                         @ join ''\<newline>'' (drop 1 (splitlines result_failed))
                  else combined_result);
               combined_result =
                 (if length (splitlines result_unprocessed) > 1
                  then combined_result @ empty_columns
                         @ join empty_columns (drop 1 (splitlines result_unprocessed))
                  else combined_result)
           in Inr combined_result))"


text \<open>
  Modelled from the spec: a result partition is a header line plus its data rows. The
  remote service is not part of the repository; the body of a partition is taken to be
  the header line and the data rows, each row the text of one CSV record, each of them
  followed by the line ending \<^verbatim>\<open>LF\<close> that \<^verbatim>\<open>_create_job\<close> asks for.
\<close>

definition partition_body :: "string \<Rightarrow> string list \<Rightarrow> string" where
  "partition_body header rows = concat (map (\<lambda>l. l @ [CHR 0x0A]) (header # rows))"
section \<open>The remote service: \<^verbatim>\<open>util.call_salesforce\<close> and \<^verbatim>\<open>util.exception_handler\<close>\<close>

text \<open>
  A request as \<^verbatim>\<open>session.request(method, url, headers=headers, **kwargs)\<close> sends it. The
  headers carry the session and the content type and play no part in the control flow;
  they are left out. The body is the JSON object given to \<^verbatim>\<open>json.dumps\<close>, the CSV text of
  a chunk, or absent. A JSON object is the list of its members; a member is a string or
  \<^verbatim>\<open>null\<close> (\<open>None\<close>), and the names of an object are taken to be distinct.
\<close>

datatype http_method = GET | POST | PUT | PATCH

datatype payload = NoData | JsonData json | CsvData chunk

record request =
  req_method :: http_method
  req_url :: string
  req_data :: payload

text \<open>
  A response: \<^verbatim>\<open>result.url\<close>, \<^verbatim>\<open>result.status_code\<close>, the decoded body
  (\<^verbatim>\<open>result.text\<close>, \<^verbatim>\<open>result.content.decode('utf-8')\<close>) and what \<^verbatim>\<open>result.json()\<close>
  returns, \<open>None\<close> when the body is not JSON and \<^verbatim>\<open>result.json()\<close> raises.
\<close>

record response =
  url :: string
  status_code :: int
  content :: string
  json_body :: "json option"

text \<open>
  What an operation does to its surroundings, in order: the requests it sends with the
  responses it gets, the files it writes and the times it sleeps.
\<close>

datatype effect = Call request response | FileWrite string chunk | Sleep nat

record 's world =
  remote :: 's
  trace :: "effect list"

text \<open>
  The remote service answers a request from its own state \<^typ>\<open>'s\<close>; failures of the
  transport below HTTP are outside the model. A statement that may raise is an action on
  the world that returns the exception (\<open>Inl\<close>) or its value (\<open>Inr\<close>).
\<close>

type_synonym 's service = "'s \<Rightarrow> request \<Rightarrow> response \<times> 's"

type_synonym ('s, 'a) action = "'s world \<Rightarrow> (error + 'a) \<times> 's world"

definition succeed :: "'a \<Rightarrow> ('s, 'a) action" where
  "succeed x w = (Inr x, w)"

definition raise :: "error \<Rightarrow> ('s, 'a) action" where
  "raise e w = (Inl e, w)"

definition lift :: "error + 'a \<Rightarrow> ('s, 'a) action" where
  "lift r w = (r, w)"

text \<open>Sequencing: an exception in the first statement skips what follows.\<close>

definition and_then :: "('s, 'a) action \<Rightarrow> ('a \<Rightarrow> ('s, 'b) action) \<Rightarrow> ('s, 'b) action" where
  "and_then m f w = (case m w of (Inl e, w') \<Rightarrow> (Inl e, w') | (Inr x, w') \<Rightarrow> f x w')"

definition session_request ::
    "'s service \<Rightarrow> http_method \<Rightarrow> string \<Rightarrow> payload \<Rightarrow> 's world \<Rightarrow> response \<times> 's world" where
  "session_request session method url' data w =
     (let rq = \<lparr>req_method = method, req_url = url', req_data = data\<rparr>
      in case session (remote w) rq of
           (result, s') \<Rightarrow> (result, \<lparr>remote = s', trace = trace w @ [Call rq result]\<rparr>))"

definition exc_map :: "(int \<times> sf_class) list" where
  "exc_map =
     [(300, SalesforceMoreThanOneRecord),
      (400, SalesforceMalformedRequest),
      (401, SalesforceExpiredSession),
      (403, SalesforceRefusedRequest),
      (404, SalesforceResourceNotFound)]"

text \<open>\<^verbatim>\<open>exc_map.get(status, SalesforceGeneralError)\<close>\<close>

definition exc_cls :: "int \<Rightarrow> sf_class" where
  "exc_cls status =
     (case map_of exc_map status of Some c \<Rightarrow> c | None \<Rightarrow> SalesforceGeneralError)"

text \<open>
  \<^verbatim>\<open>exception_handler(result, name)\<close> always raises; the model returns the exception it
  raises.
\<close>

definition exception_handler :: "response \<Rightarrow> string \<Rightarrow> error" where
  "exception_handler result name =
     (let response_content =
            (case json_body result of
               Some j \<Rightarrow> JsonContent j
             | None \<Rightarrow> TextContent (content result))
      in SalesforceError (exc_cls (status_code result)) (url result) (status_code result)
           name response_content)"

definition call_salesforce ::
    "'s service \<Rightarrow> string \<Rightarrow> http_method \<Rightarrow> payload \<Rightarrow> ('s, response) action" where
  "call_salesforce session url' method data w =
     (case session_request session method url' data w of
        (result, w') \<Rightarrow>
          if status_code result \<ge> 300 then (Inl (exception_handler result ''''), w')
          else (Inr result, w'))"

section \<open>The bulk operations: \<^verbatim>\<open>bulk_v2.SFBulk_v2Type\<close>\<close>

text \<open>The fields of \<^verbatim>\<open>self\<close> that the methods read; the session is passed beside it.\<close>

record sfbulk =
  object_name :: string
  bulk_url :: string

text \<open>\<^verbatim>\<open>result.json(object_pairs_hook=OrderedDict)\<close>\<close>

definition result_json :: "response \<Rightarrow> ('s, json) action" where
  "result_json result =
     (case json_body result of None \<Rightarrow> raise JSONDecodeError | Some j \<Rightarrow> succeed j)"

text \<open>\<^verbatim>\<open>d[key]\<close> on a dictionary\<close>

definition getitem :: "json \<Rightarrow> string \<Rightarrow> error + string option" where
  "getitem d key = (case map_of d key of None \<Rightarrow> Inl (KeyError key) | Some v \<Rightarrow> Inr v)"

text \<open>What \<^verbatim>\<open>"{}".format(v)\<close> inserts for a string or for \<^verbatim>\<open>None\<close>.\<close>

definition py_str :: "string option \<Rightarrow> string" where
  "py_str v = (case v of None \<Rightarrow> ''None'' | Some s \<Rightarrow> s)"

definition create_job ::
    "'s service \<Rightarrow> sfbulk \<Rightarrow> string \<Rightarrow> string \<Rightarrow> string option \<Rightarrow> ('s, json) action" where
  "create_job session self operation object_name' external_id_field =
     (let payload = [(''operation'', Some operation),
                     (''object'', Some object_name'),
                     (''contentType'', Some ''CSV''),
                     (''lineEnding'', Some ''LF'')];
          payload = (if operation = ''upsert''
                     then payload @ [(''externalIdFieldName'', external_id_field)]
                     else payload);
          url' = bulk_url self
      in and_then (call_salesforce session url' POST (JsonData payload)) result_json)"

definition add_batch ::
    "'s service \<Rightarrow> sfbulk \<Rightarrow> string option \<Rightarrow> chunk \<Rightarrow> string \<Rightarrow> ('s, int) action" where
  "add_batch session self job_id data operation =
     (let url' = bulk_url self @ py_str job_id @ ''/batches/''
      in and_then (call_salesforce session url' PUT (CsvData data))
           (\<lambda>result. succeed (status_code result)))"

definition close_job :: "'s service \<Rightarrow> sfbulk \<Rightarrow> string option \<Rightarrow> ('s, json) action" where
  "close_job session self job_id =
     (let payload = [(''state'', Some ''UploadComplete'')];
          url' = bulk_url self @ py_str job_id
      in and_then (call_salesforce session url' PATCH (JsonData payload)) result_json)"

definition get_job :: "'s service \<Rightarrow> sfbulk \<Rightarrow> string option \<Rightarrow> ('s, json) action" where
  "get_job session self job_id =
     (let url' = bulk_url self @ py_str job_id
      in and_then (call_salesforce session url' GET NoData) result_json)"

definition get_job_results :: "'s service \<Rightarrow> sfbulk \<Rightarrow> string option \<Rightarrow> ('s, string) action" where
  "get_job_results session self job_id =
     and_then (call_salesforce session
                 (bulk_url self @ py_str job_id @ ''/successfulResults/'') GET NoData)
       (\<lambda>result_success.
     and_then (call_salesforce session
                 (bulk_url self @ py_str job_id @ ''/failedResults/'') GET NoData)
       (\<lambda>result_failed.
     and_then (call_salesforce session
                 (bulk_url self @ py_str job_id @ ''/unprocessedrecords/'') GET NoData)
       (\<lambda>result_unprocessed.
     lift (merge_results (content result_success) (content result_failed)
             (content result_unprocessed)))))"

subsection \<open>\<^verbatim>\<open>util.json_list_to_file\<close>\<close>

text \<open>
  A record is a dictionary from field names to values, in insertion order, its keys
  distinct; a value is given by its text, \<^verbatim>\<open>str(v)\<close>, the empty string for \<^verbatim>\<open>None\<close>,
  which the CSV writer quotes where needed. \<^verbatim>\<open>csv.DictWriter.writerow\<close>
  raises \<^verbatim>\<open>ValueError\<close> for a key outside \<^verbatim>\<open>fieldnames\<close> and writes the empty string
  for a missing one.
\<close>

type_synonym py_dict = "(string \<times> string) list"

definition dict_writerow :: "row \<Rightarrow> py_dict \<Rightarrow> error + row" where
  "dict_writerow fieldnames rowdict =
     (if list_ex (\<lambda>key. key \<notin> set fieldnames) (map fst rowdict) then Inl ValueError
      else Inr (map (\<lambda>key. case map_of rowdict key of Some v \<Rightarrow> v | None \<Rightarrow> []) fieldnames))"

text \<open>
  The loop of \<^verbatim>\<open>json_list_to_file\<close>; the first argument is the writer's \<^verbatim>\<open>fieldnames\<close>,
  \<open>None\<close> while \<^verbatim>\<open>sentinel == 0\<close>, the last one the text in \<^verbatim>\<open>output\<close>. The keys of the
  first record are the field names, and \<^verbatim>\<open>writeheader\<close> writes them as a row.
\<close>

fun json_list_loop :: "row option \<Rightarrow> py_dict list \<Rightarrow> string \<Rightarrow> error + string" where
  "json_list_loop writer [] output = Inr output"
| "json_list_loop writer (row # data) output =
     (let fieldnames = (case writer of None \<Rightarrow> map fst row | Some f \<Rightarrow> f);
          output' = (case writer of None \<Rightarrow> writerow output fieldnames | Some f \<Rightarrow> output)
      in case dict_writerow fieldnames row of
           Inl e \<Rightarrow> Inl e
         | Inr r \<Rightarrow> json_list_loop (Some fieldnames) data (writerow output' r))"

definition json_list_to_file :: "py_dict list \<Rightarrow> error + string" where
  "json_list_to_file data = json_list_loop None data []"

subsection \<open>\<^verbatim>\<open>csv.reader(file, delimiter=',', quotechar='"')\<close>\<close>

text \<open>
  The reader takes the file line by line. The lines of an \<^verbatim>\<open>io.StringIO(newline=None)\<close>
  end after each LF (what was written holds no CR any more) and keep it.
\<close>

fun stringio_lines :: "string \<Rightarrow> string list" where
  "stringio_lines [] = []"
| "stringio_lines (c # cs) =
     (if c = CHR 0x0A then [c] # stringio_lines cs
      else (case stringio_lines cs of
              [] \<Rightarrow> [[c]]
            | l # ls \<Rightarrow> (c # l) # ls))"

text \<open>
  The parser of the \<^verbatim>\<open>_csv\<close> module for this dialect (\<^verbatim>\<open>doublequote\<close>, no escape
  character, not \<^verbatim>\<open>strict\<close>, no \<^verbatim>\<open>skipinitialspace\<close>): its states, and the fields and
  the field under construction of the record being read. \<^verbatim>\<open>parse_add_char\<close> refuses a
  character for a field that has reached \<^verbatim>\<open>csv.field_size_limit()\<close>, which the module
  leaves at 131072. The parser is given each character of a line and then the end of the
  line, \<open>None\<close> here.
\<close>

datatype parser_state =
  START_RECORD | START_FIELD | IN_FIELD | IN_QUOTED_FIELD | QUOTE_IN_QUOTED_FIELD | EAT_CRNL

record reader =
  record_fields :: row
  field :: string
  state :: parser_state

definition field_limit :: int where
  "field_limit = 128 * 1024"

definition parse_reset :: reader where
  "parse_reset = \<lparr>record_fields = [], field = [], state = START_RECORD\<rparr>"

definition parse_save_field :: "reader \<Rightarrow> reader" where
  "parse_save_field self = self\<lparr>record_fields := record_fields self @ [field self], field := []\<rparr>"

definition parse_add_char :: "reader \<Rightarrow> char \<Rightarrow> error + reader" where
  "parse_add_char self c =
     (if int (length (field self)) \<ge> field_limit then Inl CsvError
      else Inr (self\<lparr>field := field self @ [c]\<rparr>))"

definition is_crnl :: "char option \<Rightarrow> bool" where
  "is_crnl c \<longleftrightarrow> c = Some (CHR 0x0A) \<or> c = Some (CHR 0x0D)"

definition end_of_record :: "reader \<Rightarrow> char option \<Rightarrow> reader" where
  "end_of_record self c =
     (parse_save_field self)\<lparr>state := (if c = None then START_RECORD else EAT_CRNL)\<rparr>"

definition start_field :: "reader \<Rightarrow> char option \<Rightarrow> error + reader" where
  "start_field self c =
     (case c of
        None \<Rightarrow> Inr (end_of_record self c)
      | Some ch \<Rightarrow>
          if is_crnl c then Inr (end_of_record self c)
          else if ch = CHR 0x22 then Inr (self\<lparr>state := IN_QUOTED_FIELD\<rparr>)
          else if ch = CHR '','' then Inr (parse_save_field self)
          else map_sum id (\<lambda>self'. self'\<lparr>state := IN_FIELD\<rparr>) (parse_add_char self ch))"

definition parse_process_char :: "reader \<Rightarrow> char option \<Rightarrow> error + reader" where
  "parse_process_char self c =
     (case state self of
        START_RECORD \<Rightarrow>
          if c = None then Inr self
          else if is_crnl c then Inr (self\<lparr>state := EAT_CRNL\<rparr>)
          else start_field (self\<lparr>state := START_FIELD\<rparr>) c
      | START_FIELD \<Rightarrow> start_field self c
      | IN_FIELD \<Rightarrow>
          (case c of
             None \<Rightarrow> Inr (end_of_record self c)
           | Some ch \<Rightarrow>
               if is_crnl c then Inr (end_of_record self c)
               else if ch = CHR '','' then Inr ((parse_save_field self)\<lparr>state := START_FIELD\<rparr>)
               else parse_add_char self ch)
      | IN_QUOTED_FIELD \<Rightarrow>
          (case c of
             None \<Rightarrow> Inr self
           | Some ch \<Rightarrow>
               if ch = CHR 0x22 then Inr (self\<lparr>state := QUOTE_IN_QUOTED_FIELD\<rparr>)
               else parse_add_char self ch)
      | QUOTE_IN_QUOTED_FIELD \<Rightarrow>
          (case c of
             None \<Rightarrow> Inr (end_of_record self c)
           | Some ch \<Rightarrow>
               if ch = CHR 0x22
               then map_sum id (\<lambda>self'. self'\<lparr>state := IN_QUOTED_FIELD\<rparr>) (parse_add_char self ch)
               else if ch = CHR '','' then Inr ((parse_save_field self)\<lparr>state := START_FIELD\<rparr>)
               else if is_crnl c then Inr (end_of_record self c)
               else map_sum id (\<lambda>self'. self'\<lparr>state := IN_FIELD\<rparr>) (parse_add_char self ch))
      | EAT_CRNL \<Rightarrow>
          if is_crnl c then Inr self
          else if c = None then Inr (self\<lparr>state := START_RECORD\<rparr>)
          else Inl CsvError)"

text \<open>The characters of one line, then its end.\<close>

fun parse_line :: "reader \<Rightarrow> string \<Rightarrow> error + reader" where
  "parse_line self [] = parse_process_char self None"
| "parse_line self (c # cs) =
     (case parse_process_char self (Some c) of
        Inl e \<Rightarrow> Inl e
      | Inr self' \<Rightarrow> parse_line self' cs)"

text \<open>
  The rows that the reader hands out over the lines that are left, and how it ends: a
  record is complete when the parser is back in \<^verbatim>\<open>START_RECORD\<close> after a line; at the
  end of the input, a record that is still open (inside a quoted field) is handed out
  as it is.
\<close>

fun reader_rows :: "reader \<Rightarrow> string list \<Rightarrow> row iterator" where
  "reader_rows self [] =
     (if field self \<noteq> [] \<or> state self = IN_QUOTED_FIELD
      then ([record_fields (parse_save_field self)], None)
      else ([], None))"
| "reader_rows self (lineobj # lines) =
     (case parse_line self lineobj of
        Inl e \<Rightarrow> ([], Some e)
      | Inr self' \<Rightarrow>
          if state self' = START_RECORD
          then (case reader_rows parse_reset lines of
                  (rows, stop) \<Rightarrow> (record_fields self' # rows, stop))
          else reader_rows self' lines)"

definition csv_reader :: "string \<Rightarrow> row iterator" where
  "csv_reader file = reader_rows parse_reset (stringio_lines file)"

subsection \<open>\<^verbatim>\<open>_bulk_operation\<close>\<close>

text \<open>
  The argument \<^verbatim>\<open>data\<close>: a list of records, or a CSV reader, given by the rows it hands
  out and by the exception that ends it, if one does. A list is written to a file and
  read back by a reader; the reader reads as it is asked for rows, so an error of the
  parser comes after the rows before it.
\<close>

datatype bulk_data = RecordList "py_dict list" | CsvReader "row iterator"

definition as_reader :: "bulk_data \<Rightarrow> error + row iterator" where
  "as_reader data =
     (case data of
        RecordList l \<Rightarrow> map_sum id csv_reader (json_list_to_file l)
      | CsvReader reader \<Rightarrow> Inr reader)"

definition file_write :: "string \<Rightarrow> chunk \<Rightarrow> ('s, unit) action" where
  "file_write name data w = (Inr (), w\<lparr>trace := trace w @ [FileWrite name data]\<rparr>)"

definition sleep :: "nat \<Rightarrow> ('s, unit) action" where
  "sleep wait w = (Inr (), w\<lparr>trace := trace w @ [Sleep wait]\<rparr>)"

text \<open>
  The body of \<^verbatim>\<open>for batch in split_csv(data, 100)\<close>, over the chunks the generator
  yields. \<^verbatim>\<open>job['id']\<close> is read three times from the same dictionary; it is looked up once.
\<close>

fun submit_batches ::
    "'s service \<Rightarrow> sfbulk \<Rightarrow> string \<Rightarrow> string \<Rightarrow> string option \<Rightarrow> chunk list
       \<Rightarrow> string option list \<Rightarrow> ('s, string option list) action" where
  "submit_batches session self object_name' operation external_id_field [] job_ids =
     succeed job_ids"
| "submit_batches session self object_name' operation external_id_field (batch # batches) job_ids =
     and_then (file_write ''batch.csv'' batch) (\<lambda>_.
     and_then (create_job session self operation object_name' external_id_field) (\<lambda>job.
     and_then (lift (getitem job ''id'')) (\<lambda>job_id.
     and_then (add_batch session self job_id batch operation) (\<lambda>_.
     and_then (close_job session self job_id) (\<lambda>_.
       submit_batches session self object_name' operation external_id_field batches
         (job_ids @ [job_id]))))))"

text \<open>\<^verbatim>\<open>xs.pop(i)\<close> for an index within the list: the list without its element at \<open>i\<close>.\<close>

definition pop :: "nat \<Rightarrow> 'a list \<Rightarrow> 'a list" where
  "pop i xs = take i xs @ drop (Suc i) xs"

definition terminal_states :: "string option list" where
  "terminal_states = [Some ''JobComplete'', Some ''Failed'', Some ''Aborted'']"

text \<open>
  One pass \<^verbatim>\<open>for i, job in enumerate(job_ids)\<close>. The list iterator holds an index into
  the list that the body mutates; \<^verbatim>\<open>enumerate\<close> counts the items it has handed out, so
  \<open>i\<close> is both. The iterator stops when its index is no longer within the list as it is
  then.
\<close>

function poll_pass ::
    "'s service \<Rightarrow> sfbulk \<Rightarrow> nat \<Rightarrow> string option list \<Rightarrow> string list
       \<Rightarrow> ('s, string option list \<times> string list) action" where
  "poll_pass session self i job_ids results =
     (if i < length job_ids then
        (let job = job_ids ! i
         in and_then (get_job session self job) (\<lambda>j.
            and_then (lift (getitem j ''state'')) (\<lambda>job_state.
              if job_state \<notin> set terminal_states
              then poll_pass session self (Suc i) job_ids results
              else and_then (get_job_results session self job) (\<lambda>job_result.
                     poll_pass session self (Suc i) (pop i job_ids)
                       (results @ [job_result])))))
      else succeed (job_ids, results))"
  by pat_completeness auto
termination
  by (relation "measure (\<lambda>(session, self, i, job_ids, results). length job_ids - i)")
     (auto simp: pop_def)

declare poll_pass.simps [simp del]

text \<open>
  The loop \<^verbatim>\<open>while job_ids\<close>. Nothing bounds the number of passes, so the model takes a
  bound: the result \<open>None\<close> says that jobs were still live after \<open>fuel\<close> passes, and
  comes with the world as it is then.
\<close>

fun poll_loop ::
    "nat \<Rightarrow> 's service \<Rightarrow> sfbulk \<Rightarrow> nat \<Rightarrow> string option list \<Rightarrow> string list \<Rightarrow> 's world
       \<Rightarrow> (error + string list) option \<times> 's world" where
  "poll_loop fuel session self wait job_ids results w =
     (if job_ids = [] then (Some (Inr results), w)
      else case fuel of
             0 \<Rightarrow> (None, w)
           | Suc fuel' \<Rightarrow>
               (case poll_pass session self 0 job_ids results w of
                  (Inl e, w') \<Rightarrow> (Some (Inl e), w')
                | (Inr (job_ids', results'), w') \<Rightarrow>
                    poll_loop fuel' session self wait job_ids' results' (snd (sleep wait w'))))"

declare poll_loop.simps [simp del]

definition bulk_operation ::
    "nat \<Rightarrow> 's service \<Rightarrow> sfbulk \<Rightarrow> string \<Rightarrow> string \<Rightarrow> bulk_data \<Rightarrow> string option \<Rightarrow> nat
       \<Rightarrow> 's world \<Rightarrow> (error + string) option \<times> 's world" where
  "bulk_operation fuel session self object_name' operation data external_id_field wait w =
     (case as_reader data of
        Inl e \<Rightarrow> (Some (Inl e), w)
      | Inr reader \<Rightarrow>
          (case split_csv reader (PyInt 100) of
             (batches, stop) \<Rightarrow>
               (case submit_batches session self object_name' operation external_id_field
                       batches [] w of
                  (Inl e, w') \<Rightarrow> (Some (Inl e), w')
                | (Inr job_ids, w') \<Rightarrow>
                    (case stop of
                       Some e \<Rightarrow> (Some (Inl e), w')
                     | None \<Rightarrow>
                         (case poll_loop fuel session self wait job_ids [] w' of
                            (None, w'') \<Rightarrow> (None, w'')
                          | (Some (Inl e), w'') \<Rightarrow> (Some (Inl e), w'')
                          | (Some (Inr results), w'') \<Rightarrow>
                              (Some (Inr (join ''\<newline>'' results)), w''))))))"

text \<open>
  The public operations. The first argument bounds the polling passes; \<^verbatim>\<open>wait\<close> keeps
  its default of 5 seconds.
\<close>

definition delete ::
    "nat \<Rightarrow> 's service \<Rightarrow> sfbulk \<Rightarrow> bulk_data \<Rightarrow> 's world \<Rightarrow> (error + string) option \<times> 's world" where
  "delete fuel session self data =
     bulk_operation fuel session self (object_name self) ''delete'' data None 5"

definition insert_records ::
    "nat \<Rightarrow> 's service \<Rightarrow> sfbulk \<Rightarrow> bulk_data \<Rightarrow> 's world \<Rightarrow> (error + string) option \<times> 's world" where
  "insert_records fuel session self data =
     bulk_operation fuel session self (object_name self) ''insert'' data None 5"

definition upsert ::
    "nat \<Rightarrow> 's service \<Rightarrow> sfbulk \<Rightarrow> bulk_data \<Rightarrow> string option \<Rightarrow> 's world
       \<Rightarrow> (error + string) option \<times> 's world" where
  "upsert fuel session self data external_id_field =
     bulk_operation fuel session self (object_name self) ''upsert'' data external_id_field 5"

definition update ::
    "nat \<Rightarrow> 's service \<Rightarrow> sfbulk \<Rightarrow> bulk_data \<Rightarrow> 's world \<Rightarrow> (error + string) option \<times> 's world" where
  "update fuel session self data =
     bulk_operation fuel session self (object_name self) ''update'' data None 5"

section \<open>A scripted service for the concrete runs\<close>

text \<open>
  A remote service that replays a script: its state is the list of the responses still to
  come, each request is answered by the next one (under the URL of the request), and
  status 500 answers a request beyond the end of the script.
\<close>

fun scripted :: "response list service" where
  "scripted [] rq = (\<lparr>url = req_url rq, status_code = 500, content = [], json_body = None\<rparr>, [])"
| "scripted (r # rs) rq = (r\<lparr>url := req_url rq\<rparr>, rs)"

definition json_response :: "int \<Rightarrow> json \<Rightarrow> response" where
  "json_response status j = \<lparr>url = [], status_code = status, content = [], json_body = Some j\<rparr>"

definition text_response :: "int \<Rightarrow> string \<Rightarrow> response" where
  "text_response status body = \<lparr>url = [], status_code = status, content = body, json_body = None\<rparr>"

definition start :: "response list \<Rightarrow> response list world" where
  "start script = \<lparr>remote = script, trace = []\<rparr>"

text \<open>A trace in short: what was requested, written and slept, in order.\<close>

datatype step = Requested http_method string | Wrote string | Slept nat

fun steps_of :: "effect list \<Rightarrow> step list" where
  "steps_of [] = []"
| "steps_of (Call rq rs # evs) = Requested (req_method rq) (req_url rq) # steps_of evs"
| "steps_of (FileWrite name data # evs) = Wrote name # steps_of evs"
| "steps_of (Sleep wait # evs) = Slept wait # steps_of evs"

text \<open>The first request of a trace, if there is one.\<close>

fun first_request :: "effect list \<Rightarrow> request option" where
  "first_request [] = None"
| "first_request (Call rq rs # evs) = Some rq"
| "first_request (FileWrite name data # evs) = first_request evs"
| "first_request (Sleep wait # evs) = first_request evs"

definition contacts :: sfbulk where
  "contacts = \<lparr>object_name = ''Contact'', bulk_url = ''https://sf.example/jobs/ingest/''\<rparr>"

section \<open>Predicates used in the proofs\<close>

text \<open>
  The text of rows written one after the other to an empty \<^verbatim>\<open>output\<close>, and the chunk
  that holds the header and the given data rows.
\<close>

definition csv_text :: "row list \<Rightarrow> string" where
  "csv_text rows = concat (map (\<lambda>line. translate_newlines (record_text line)) rows)"

definition chunk_of :: "row \<Rightarrow> row list \<Rightarrow> chunk" where
  "chunk_of header rows = csv_text (header # rows)"

text \<open>
  The data rows of a chunk that the inner loop closed: at least one, an accounted size
  that has reached the limit, and below the limit before the last row was added (unless
  there is a single row). Then the rows of the last output, with the rows of the chunks
  yielded before it.
\<close>

definition closed_rows :: "int \<Rightarrow> row list \<Rightarrow> bool" where
  "closed_rows mb ts \<longleftrightarrow>
     ts \<noteq> [] \<and> mb \<le> rows_cost ts \<and> (length ts = 1 \<or> rows_cost (butlast ts) < mb)"

definition final_rows :: "int \<Rightarrow> row list \<Rightarrow> row list list \<Rightarrow> row list \<Rightarrow> bool" where
  "final_rows mb data tss t \<longleftrightarrow>
     t \<noteq> [] \<and>
     (if mb \<le> rows_cost t then tss \<noteq> [] \<and> last tss = t \<and> concat tss = data
      else concat tss @ t = data)"

text \<open>
  The merged body, line by line: the first line of the success body, then the further
  lines of the success body, of the failed body, and those of the unprocessed body, each of
  the latter behind the two empty quoted fields.
\<close>

definition merged_lines :: "string \<Rightarrow> string \<Rightarrow> string \<Rightarrow> string list" where
  \<open>merged_lines result_success result_failed result_unprocessed =
     splitlines result_success @ drop 1 (splitlines result_failed)
       @ map ((@) ''"","",'') (drop 1 (splitlines result_unprocessed))\<close>

text \<open>A header line or data row that holds no character at which \<^verbatim>\<open>splitlines\<close> breaks.\<close>

definition plain_line :: "string \<Rightarrow> bool" where
  "plain_line l \<longleftrightarrow> \<not> list_ex is_linebreak l"

section \<open>Predicates on the runs of the bulk operations\<close>

text \<open>
  A call that \<^verbatim>\<open>call_salesforce\<close> answers with an exception, and the traces and results
  of a run that stops at the first such call.
\<close>

fun failed_call :: "effect \<Rightarrow> bool" where
  "failed_call (Call rq rs) = (status_code rs \<ge> 300)"
| "failed_call (FileWrite name data) = False"
| "failed_call (Sleep wait) = False"

definition run_ok :: "effect list \<Rightarrow> (error + 'a) option \<Rightarrow> bool" where
  "run_ok evs out \<longleftrightarrow>
     \<not> list_ex failed_call evs \<or>
     (\<exists>evs0 rq rs. evs = evs0 @ [Call rq rs] \<and> \<not> list_ex failed_call evs0 \<and>
        status_code rs \<ge> 300 \<and> out = Some (Inl (exception_handler rs [])))"

definition traced :: "('s, 'a) action \<Rightarrow> bool" where
  "traced m \<longleftrightarrow>
     (\<forall>w. \<exists>evs. trace (snd (m w)) = trace w @ evs \<and> run_ok evs (Some (fst (m w))))"

section \<open>Properties of the chunker\<close>

lemma csv_text_append: "csv_text (xs @ ys) = csv_text xs @ csv_text ys"
  by (simp add: csv_text_def)

lemma writerow_csv_text: "writerow (out @ csv_text rows) line = out @ csv_text (rows @ [line])"
  by (simp add: writerow_def csv_text_def)

lemma writerow_header: "writerow [] header = chunk_of header []"
  by (simp add: writerow_def chunk_of_def csv_text_def)

lemma rows_cost_simps:
  "rows_cost [] = 0" "rows_cost (line # rows) = row_cost line + rows_cost rows"
  "rows_cost (xs @ ys) = rows_cost xs + rows_cost ys"
  by (simp_all add: rows_cost_def)

lemma inner_loop_spec:
  "inner_loop mb out n data = (out', n', rest, b) \<Longrightarrow>
     \<exists>taken. out' = out @ csv_text taken \<and> data = taken @ rest
        \<and> n' = n + rows_cost taken
        \<and> (b \<longrightarrow> taken \<noteq> [] \<and> mb \<le> n'
                 \<and> (length taken = 1 \<or> n + rows_cost (butlast taken) < mb))
        \<and> (\<not> b \<longrightarrow> rest = [] \<and> (taken = [] \<or> n' < mb))"
proof (induction data arbitrary: out n)
  case Nil
  then show ?case by (auto simp: csv_text_def rows_cost_def)
next
  case (Cons line data)
  have w: "writerow out line = out @ csv_text [line]"
    by (simp add: writerow_def csv_text_def)
  show ?case
  proof (cases "mb \<le> n + row_cost line")
    case True
    with Cons.prems have "out' = writerow out line" "n' = n + row_cost line" "rest = data" "b"
      by (simp_all add: Let_def)
    then show ?thesis using True w
      by (intro exI [of _ "[line]"]) (simp add: rows_cost_simps)
  next
    case False
    with Cons.prems have
      "inner_loop mb (writerow out line) (n + row_cost line) data = (out', n', rest, b)"
      by (simp add: Let_def)
    from Cons.IH [OF this] obtain taken where t:
      "out' = writerow out line @ csv_text taken" "data = taken @ rest"
      "n' = n + row_cost line + rows_cost taken"
      "b \<longrightarrow> taken \<noteq> [] \<and> mb \<le> n'
                 \<and> (length taken = 1 \<or> n + row_cost line + rows_cost (butlast taken) < mb)"
      "\<not> b \<longrightarrow> rest = [] \<and> (taken = [] \<or> n' < mb)"
      by blast
    have one: "length taken = 1 \<Longrightarrow> butlast taken = []"
      by (cases taken) auto
    show ?thesis
    proof (intro exI [of _ "line # taken"] conjI)
      show "out' = out @ csv_text (line # taken)"
        using t(1) w csv_text_append [of "[line]" taken] by simp
      show "line # data = (line # taken) @ rest" using t(2) by simp
      show "n' = n + rows_cost (line # taken)" using t(3) by (simp add: rows_cost_simps)
      show "b \<longrightarrow> line # taken \<noteq> [] \<and> mb \<le> n'
                 \<and> (length (line # taken) = 1 \<or> n + rows_cost (butlast (line # taken)) < mb)"
        using t(4) False one by (auto simp: rows_cost_simps add.assoc)
      show "\<not> b \<longrightarrow> rest = [] \<and> (line # taken = [] \<or> n' < mb)"
        using t(5) False t(3) by (auto simp: rows_cost_simps)
    qed
  qed
qed

lemma outer_loop_spec:
  "outer_loop mb h data out = (ys, fin) \<Longrightarrow>
     \<exists>tss. ys = map (chunk_of h) tss \<and> list_all (closed_rows mb) tss \<and>
       (data = [] \<longrightarrow> tss = [] \<and> fin = out) \<and>
       (data \<noteq> [] \<longrightarrow> (\<exists>t. fin = Some (chunk_of h t) \<and> final_rows mb data tss t))"
proof (induction mb h data out arbitrary: ys fin rule: outer_loop.induct)
  case (1 mb h out)
  then show ?case by simp
next
  case (2 mb h line data out)
  obtain out' n rest broke where
    il: "inner_loop mb (writerow [] h) 0 (line # data) = (out', n, rest, broke)"
    by (metis prod_cases4)
  obtain ys' fin' where ol: "outer_loop mb h rest (Some out') = (ys', fin')"
    by (metis surj_pair)
  from "2.prems" il ol have ys: "ys = (if broke then out' # ys' else ys')" and fin: "fin = fin'"
    by simp_all
  from inner_loop_spec [OF il] obtain taken where t:
    "out' = chunk_of h taken" "line # data = taken @ rest" "n = rows_cost taken"
    "broke \<longrightarrow> taken \<noteq> [] \<and> mb \<le> n
                 \<and> (length taken = 1 \<or> rows_cost (butlast taken) < mb)"
    "\<not> broke \<longrightarrow> rest = [] \<and> (taken = [] \<or> n < mb)"
    by (auto simp: writerow_def chunk_of_def csv_text_def)
  from "2.IH" [OF il [symmetric] refl refl ol] obtain tss' where IH:
    "ys' = map (chunk_of h) tss'" "list_all (closed_rows mb) tss'"
    "rest = [] \<longrightarrow> tss' = [] \<and> fin' = Some out'"
    "rest \<noteq> [] \<longrightarrow> (\<exists>t. fin' = Some (chunk_of h t) \<and> final_rows mb rest tss' t)"
    by blast
  show ?case
  proof (cases broke)
    case True
    with t(4) have tk: "taken \<noteq> []" "mb \<le> n"
      "length taken = 1 \<or> rows_cost (butlast taken) < mb" by simp_all
    have c1: "closed_rows mb taken"
      unfolding closed_rows_def using tk t(3) by auto
    have y: "ys = map (chunk_of h) (taken # tss')"
      using ys True t(1) IH(1) by simp
    have all: "list_all (closed_rows mb) (taken # tss')"
      using c1 IH(2) by simp
    show ?thesis
    proof (cases "rest = []")
      case r: True
      with IH(3) have "tss' = []" "fin' = Some out'" by simp_all
      then have "fin = Some (chunk_of h taken)" "final_rows mb (line # data) (taken # tss') taken"
        unfolding final_rows_def using fin t(1,2,3) r tk by auto
      with y all show ?thesis by (intro exI [of _ "taken # tss'"]) auto
    next
      case r: False
      with IH(4) obtain c where "fin' = Some (chunk_of h c)" "final_rows mb rest tss' c" by auto
      then have "fin = Some (chunk_of h c)" "final_rows mb (line # data) (taken # tss') c"
        unfolding final_rows_def using fin t(2) by (auto split: if_splits)
      with y all show ?thesis by (intro exI [of _ "taken # tss'"]) auto
    qed
  next
    case False
    with t(5) have tk: "rest = []" "taken = [] \<or> n < mb" by simp_all
    with t(2) have ne: "taken \<noteq> []" by auto
    from tk IH(3) have e: "tss' = []" "fin' = Some out'" by simp_all
    then have "fin = Some (chunk_of h taken)" "final_rows mb (line # data) [] taken"
      unfolding final_rows_def using fin tk ne t(1,2,3) by auto
    then show ?thesis using ys False e IH(1) by (intro exI [of _ "[]"]) auto
  qed
qed

lemma row_cost_pos: "0 < row_cost line"
proof -
  have "0 \<le> sum_list (map (\<lambda>item. int (length item) + 3) line)"
    by (induction line) auto
  then show ?thesis by (simp add: row_cost_def)
qed

lemma rows_cost_butlast: "rows_cost (butlast ts) \<le> rows_cost ts"
proof (cases "ts = []")
  case True
  then show ?thesis by simp
next
  case False
  then obtain rs r where "ts = rs @ [r]"
    by (metis append_butlast_last_id)
  then show ?thesis using row_cost_pos [of r] by (simp add: rows_cost_simps)
qed

text \<open>
  The chunks of a run over data that ends without an exception: the chunks closed at the
  limit, then the last output once more.
\<close>

lemma split_rows_shape:
  assumes "data \<noteq> []"
  shows "\<exists>tss t. split_rows mb h data None = (map (chunk_of h) (tss @ [t]), None)
           \<and> list_all (closed_rows mb) tss \<and> final_rows mb data tss t"
proof -
  obtain ys fin where ol: "outer_loop mb h data None = (ys, fin)"
    by (metis surj_pair)
  from outer_loop_spec [OF ol] assms obtain tss t where
    "ys = map (chunk_of h) tss" "list_all (closed_rows mb) tss"
    "fin = Some (chunk_of h t)" "final_rows mb data tss t"
    by auto
  then show ?thesis using ol by (auto simp: split_rows_def)
qed

text \<open>Every chunk, whatever the data and its end, begins with the header row.\<close>

lemma split_rows_header:
  assumes "c \<in> set (fst (split_rows mb h data stop))"
  shows "\<exists>rows. c = translate_newlines (record_text h) @ csv_text rows"
proof -
  obtain ys fin where ol: "outer_loop mb h data None = (ys, fin)"
    by (metis surj_pair)
  from outer_loop_spec [OF ol] obtain tss where
    y: "ys = map (chunk_of h) tss"
    and f: "data = [] \<longrightarrow> fin = None"
      "data \<noteq> [] \<longrightarrow> (\<exists>t. fin = Some (chunk_of h t))"
    by auto
  from assms ol have "c \<in> set ys \<or> fin = Some c"
    by (auto simp: split_rows_def split: option.splits)
  with y f obtain rows where "c = chunk_of h rows"
    by (cases "data = []") auto
  then show ?thesis by (auto simp: chunk_of_def csv_text_def)
qed

text \<open>
  The data rows of the chunks are the data rows given, in order, followed by those of the
  last chunk once more when that chunk had reached the limit.
\<close>

lemma split_rows_data_rows:
  assumes "data \<noteq> []"
  shows "\<exists>tss. split_rows mb h data None = (map (chunk_of h) tss, None) \<and> tss \<noteq> [] \<and>
           concat tss = data @ (if mb \<le> rows_cost (last tss) then last tss else [])"
proof -
  from split_rows_shape [OF assms, of mb h] obtain tss t where
    s: "split_rows mb h data None = (map (chunk_of h) (tss @ [t]), None)"
    and f: "final_rows mb data tss t"
    by blast
  from f have "concat (tss @ [t]) = data @ (if mb \<le> rows_cost t then t else [])"
    by (auto simp: final_rows_def split: if_splits)
  with s show ?thesis by (intro exI [of _ "tss @ [t]"]) simp
qed

text \<open>A chunk is below the limit before its last row is added.\<close>

lemma split_rows_size:
  assumes "data \<noteq> []"
  shows "\<exists>tss. split_rows mb h data None = (map (chunk_of h) tss, None) \<and>
           list_all (\<lambda>ts. length ts = 1 \<or> rows_cost (butlast ts) < mb) tss"
proof -
  from split_rows_shape [OF assms, of mb h] obtain tss t where
    s: "split_rows mb h data None = (map (chunk_of h) (tss @ [t]), None)"
    and cl: "list_all (closed_rows mb) tss"
    and f: "final_rows mb data tss t"
    by blast
  have 1: "list_all (\<lambda>ts. length ts = 1 \<or> rows_cost (butlast ts) < mb) tss"
    using cl by (auto simp: list_all_iff closed_rows_def)
  have 2: "length t = 1 \<or> rows_cost (butlast t) < mb"
  proof (cases "mb \<le> rows_cost t")
    case True
    with f have "tss \<noteq> []" "last tss = t" by (simp_all add: final_rows_def)
    then have "t \<in> set tss" using last_in_set [of tss] by simp
    with cl show ?thesis by (auto simp: list_all_iff closed_rows_def)
  next
    case False
    with rows_cost_butlast [of t] show ?thesis by simp
  qed
  from s 1 2 show ?thesis by (intro exI [of _ "tss @ [t]"]) simp
qed

subsection \<open>Text of plain fields\<close>

lemma translate_newlines_plain:
  "CHR 0x0D \<notin> set xs \<Longrightarrow> translate_newlines (xs @ ys) = xs @ translate_newlines ys"
  by (induction xs) auto

lemma field_text_replicate:
  "\<not> needs_quoting c \<Longrightarrow> field_text (replicate n c) = replicate n c"
  by (auto simp: field_text_def list_ex_iff)

lemma writerow_replicate:
  assumes "0 < n" and "\<not> needs_quoting c"
  shows "writerow out [replicate n c] = out @ replicate n c @ [CHR 0x0A]"
proof -
  from assms(2) have c: "c \<noteq> CHR 0x0D"
    by (auto simp: needs_quoting_def)
  from assms(1) have ne: "replicate n c \<noteq> []"
    by simp
  from c have "CHR 0x0D \<notin> set (replicate n c)"
    by auto
  then have "translate_newlines (replicate n c @ [CHR 0x0D, CHR 0x0A])
               = replicate n c @ translate_newlines [CHR 0x0D, CHR 0x0A]"
    by (rule translate_newlines_plain)
  with ne assms(2) show ?thesis
    by (simp add: writerow_def record_text_def field_text_replicate)
qed

lemma writerow_Id:
  "writerow [] [''Id''] = ''Id\<newline>''"
  by (simp add: writerow_def record_text_def field_text_def needs_quoting_def)

lemma writerow_1:
  "writerow out [''1''] = out @ ''1\<newline>''"
  by (simp add: writerow_def record_text_def field_text_def needs_quoting_def)
subsection \<open>Claims about the chunker\<close>

text \<open>
  C1. The claim: for a header row followed by one or more data rows and any limit, the
  data rows of the chunks, concatenated in order, are the original data rows, none of them
  repeated, and every chunk begins with the header. The second part holds
  (\<open>split_rows_header\<close>). The first part fails whenever the last data row closes a
  chunk: the chunk is yielded inside the loop and once more by the statement after the
  loop (\<open>split_rows_data_rows\<close>). Here, at the split size that \<^verbatim>\<open>_bulk_operation\<close>
  passes, one data row whose accounted size is exactly 100 MiB is delivered in two
  identical chunks.
\<close>

theorem split_csv_repeats_last_chunk:
  "split_csv ([[''Id''], [replicate 104857596 CHR ''x'']], None) (PyInt 100) =
     ([''Id\<newline>'' @ replicate 104857596 CHR ''x'' @ ''\<newline>'',
       ''Id\<newline>'' @ replicate 104857596 CHR ''x'' @ ''\<newline>''], None)"
  by (simp add: split_csv_def split_rows_def max_bytes_of_def row_cost_def writerow_Id
        writerow_replicate needs_quoting_def)

text \<open>
  C2. The claim: no chunk exceeds \<^verbatim>\<open>max_bytes\<close> in the chunker's own accounting unless a
  single row alone exceeds it. The chunker tests the limit after a row has been written,
  so a closed chunk has always reached the limit and may pass it by almost one row
  (\<open>split_rows_size\<close> is the bound that does hold). Here two rows of 60000004 accounted
  bytes each, both below the limit of 104857600, form one chunk of 120000008.
\<close>

theorem split_csv_chunk_over_limit:
  "split_csv ([[''Id''], [replicate 60000000 CHR ''x''], [replicate 60000000 CHR ''x''], [''1'']],
              None) (PyInt 100) =
     ([''Id\<newline>'' @ replicate 60000000 CHR ''x'' @ ''\<newline>''
         @ replicate 60000000 CHR ''x'' @ ''\<newline>'',
       ''Id\<newline>1\<newline>''], None)
   \<and> rows_cost [[replicate 60000000 CHR ''x''], [replicate 60000000 CHR ''x'']] = 120000008
   \<and> row_cost [replicate 60000000 CHR ''x''] = 60000004
   \<and> max_bytes_of (PyInt 100) = Inr 104857600"
  by (simp add: split_csv_def split_rows_def max_bytes_of_def row_cost_def rows_cost_def
        writerow_Id writerow_1 writerow_replicate needs_quoting_def)


text \<open>
  C3. The claim: a header row and no data rows give exactly one chunk, holding the header
  only. In the code the outer loop body never runs, so \<^verbatim>\<open>start\<close>, \<^verbatim>\<open>n\<close>, \<^verbatim>\<open>log_rows\<close>
  and \<^verbatim>\<open>output\<close> are unbound when the statements after the loop read them: for every
  split size the generator raises before it yields anything (the exception of
  \<^verbatim>\<open>int\<close> where the split size has no integer value, \<^verbatim>\<open>UnboundLocalError\<close> otherwise),
  and an operation given a CSV reader that holds only a header row ends with that
  exception before any request.
\<close>

theorem split_csv_header_only_raises:
  "split_csv ([header], None) split_size
     = ([], Some (case max_bytes_of split_size of
                    Inl e \<Rightarrow> e
                  | Inr max_bytes \<Rightarrow> UnboundLocalError ''start'')) \<and>
   split_csv ([header], None) (PyInt n) = ([], Some (UnboundLocalError ''start'')) \<and>
   insert_records fuel session self (CsvReader ([header], None)) w
     = (Some (Inl (UnboundLocalError ''start'')), w)"
  by (simp add: split_csv_def split_rows_def insert_records_def bulk_operation_def
        as_reader_def succeed_def max_bytes_of_def split: sum.split)
section \<open>The fetches of \<^verbatim>\<open>_get_job_results\<close>\<close>

text \<open>
  When \<^verbatim>\<open>_get_job_results\<close> has made its three requests and the third is answered below
  300 as well, what it returns is the merge of the three bodies received.
\<close>

lemma get_job_results_merges:
  assumes "trace (snd (get_job_results session self job_id w))
             = trace w @ [Call rq1 rs1, Call rq2 rs2, Call rq3 rs3]"
    and "status_code rs3 < 300"
  shows "fst (get_job_results session self job_id w)
           = merge_results (content rs1) (content rs2) (content rs3)"
proof -
  let ?u1 = "bulk_url self @ py_str job_id @ ''/successfulResults/''"
  let ?u2 = "bulk_url self @ py_str job_id @ ''/failedResults/''"
  let ?u3 = "bulk_url self @ py_str job_id @ ''/unprocessedrecords/''"
  obtain a s1 where 1:
    "session (remote w) \<lparr>req_method = GET, req_url = ?u1, req_data = NoData\<rparr> = (a, s1)"
    by (metis surj_pair)
  obtain b s2 where 2:
    "session s1 \<lparr>req_method = GET, req_url = ?u2, req_data = NoData\<rparr> = (b, s2)"
    by (metis surj_pair)
  obtain c s3 where 3:
    "session s2 \<lparr>req_method = GET, req_url = ?u3, req_data = NoData\<rparr> = (c, s3)"
    by (metis surj_pair)
  from assms(1) have "status_code a < 300 \<and> status_code b < 300 \<and> rs1 = a \<and> rs2 = b \<and> rs3 = c"
    by (simp add: get_job_results_def call_salesforce_def session_request_def and_then_def
          lift_def 1 2 3 split: if_splits)
  with assms(2) show ?thesis
    by (simp add: get_job_results_def call_salesforce_def session_request_def and_then_def
          lift_def 1 2 3)
qed

section \<open>Properties of the result merger\<close>

lemma splitlines_no_linebreak:
  "l \<in> set (splitlines s) \<Longrightarrow> c \<in> set l \<Longrightarrow> \<not> is_linebreak c"
proof (induction s arbitrary: l rule: splitlines.induct)
  case 1
  then show ?case by simp
next
  case (2 e cs)
  show ?case
  proof (cases "e = CHR 0x0D")
    case cr: True
    show ?thesis
    proof (cases cs)
      case Nil
      with "2.prems" cr show ?thesis by simp
    next
      case (Cons d ds)
      show ?thesis
      proof (cases "d = CHR 0x0A")
        case True
        have "splitlines (e # cs) = [] # splitlines ds"
          by (simp add: cr Cons True)
        with "2.prems" have "l \<in> set (splitlines ds)" by auto
        from "2.IH"(1) [OF cr Cons True this "2.prems"(2)] show ?thesis .
      next
        case False
        have "splitlines (e # cs) = [] # splitlines cs"
          by (subst splitlines.simps(2)) (simp add: cr Cons False)
        with "2.prems" have "l \<in> set (splitlines cs)" by auto
        from "2.IH"(2) [OF cr Cons False this "2.prems"(2)] show ?thesis .
      qed
    qed
  next
    case ncr: False
    show ?thesis
    proof (cases "is_linebreak e")
      case True
      have "splitlines (e # cs) = [] # splitlines cs"
        by (subst splitlines.simps(2)) (simp add: ncr True)
      with "2.prems" have "l \<in> set (splitlines cs)" by auto
      from "2.IH"(3) [OF ncr True this "2.prems"(2)] show ?thesis .
    next
      case False
      note IH = "2.IH"(4) [OF ncr False]
      show ?thesis
      proof (cases "splitlines cs")
        case Nil
        have "splitlines (e # cs) = [[e]]"
          by (subst splitlines.simps(2)) (simp add: ncr False Nil)
        with "2.prems" False show ?thesis by auto
      next
        case (Cons l' ls)
        have "splitlines (e # cs) = (e # l') # ls"
          by (subst splitlines.simps(2)) (simp add: ncr False Cons)
        with "2.prems" have "l = e # l' \<or> l \<in> set ls" by auto
        then show ?thesis
        proof
          assume l: "l = e # l'"
          have "l' \<in> set (splitlines cs)" by (simp add: Cons)
          from IH [OF this] l "2.prems"(2) False show ?thesis by auto
        next
          assume "l \<in> set ls"
          then have "l \<in> set (splitlines cs)" by (simp add: Cons)
          from IH [OF this "2.prems"(2)] show ?thesis .
        qed
      qed
    qed
  qed
qed

lemma splitlines_line:
  "\<forall>c \<in> set x. \<not> is_linebreak c \<Longrightarrow> splitlines (x @ CHR 0x0A # rest) = x # splitlines rest"
proof (induction x)
  case Nil
  show ?case by (simp add: is_linebreak_def)
next
  case (Cons c x)
  then have "c \<noteq> CHR 0x0D" by (auto simp: is_linebreak_def)
  with Cons show ?case by simp
qed

lemma splitlines_plain:
  "\<forall>c \<in> set x. \<not> is_linebreak c \<Longrightarrow> splitlines x = (if x = [] then [] else [x])"
proof (induction x)
  case Nil
  show ?case by simp
next
  case (Cons c x)
  then have "c \<noteq> CHR 0x0D" by (auto simp: is_linebreak_def)
  with Cons show ?case by simp
qed

lemma splitlines_join:
  "\<forall>l \<in> set ls. \<forall>c \<in> set l. \<not> is_linebreak c \<Longrightarrow>
     splitlines (join ''\<newline>'' ls) = (if ls \<noteq> [] \<and> last ls = [] then butlast ls else ls)"
proof (induction ls rule: induct_list012)
  case 1
  show ?case by simp
next
  case (2 x)
  then show ?case by (simp add: splitlines_plain)
next
  case (3 x y zs)
  from "3.prems" have x: "\<forall>c \<in> set x. \<not> is_linebreak c"
    and r: "\<forall>l \<in> set (y # zs). \<forall>c \<in> set l. \<not> is_linebreak c"
    by simp_all
  have "splitlines (join ''\<newline>'' (x # y # zs)) = x # splitlines (join ''\<newline>'' (y # zs))"
    using splitlines_line [OF x] by simp
  also have "\<dots> = x # (if last (y # zs) = [] then butlast (y # zs) else y # zs)"
    using "3.IH"(2) [OF r] by simp
  finally show ?case by simp
qed

lemma join_append:
  "xs \<noteq> [] \<Longrightarrow> ys \<noteq> [] \<Longrightarrow> join sep xs @ sep @ join sep ys = join sep (xs @ ys)"
proof (induction sep xs rule: join.induct)
  case 1
  then show ?case by simp
next
  case (2 x)
  then show ?case by (cases ys) simp_all
next
  case (3 x y zs)
  then show ?case by simp
qed

lemma join_prefixed:
  "ys \<noteq> [] \<Longrightarrow> (sep @ p) @ join (sep @ p) ys = sep @ join sep (map ((@) p) ys)"
proof (induction ys rule: induct_list012)
  case 1
  then show ?case by simp
next
  case (2 x)
  then show ?case by simp
next
  case (3 x y zs)
  then show ?case by simp
qed

lemma empty_columns_eq: \<open>empty_columns = ''\<newline>'' @ ''"","",''\<close>
  by (simp add: empty_columns_def)

lemma merge_results_lines:
  assumes "splitlines result_success \<noteq> []"
  shows "merge_results result_success result_failed result_unprocessed =
           Inr (join ''\<newline>'' (merged_lines result_success result_failed result_unprocessed))"
proof -
  let ?nl = "''\<newline>''"
  let ?ls = "splitlines result_success"
  let ?lf = "drop 1 (splitlines result_failed)"
  let ?lu = "drop 1 (splitlines result_unprocessed)"
  from assms obtain h rows where ls: "?ls = h # rows"
    by (cases ?ls) auto
  define c1 where "c1 = (if length ?ls > 1 then h @ ?nl @ join ?nl (drop 1 ?ls) else h)"
  define c2 where "c2 = (if length (splitlines result_failed) > 1 then c1 @ ?nl @ join ?nl ?lf else c1)"
  define c3 where "c3 = (if length (splitlines result_unprocessed) > 1
                         then c2 @ empty_columns @ join empty_columns ?lu else c2)"
  have m: "merge_results result_success result_failed result_unprocessed = Inr c3"
    by (simp add: merge_results_def ls c1_def c2_def c3_def)
  have e1: "c1 = join ?nl ?ls"
    using ls by (cases rows) (simp_all add: c1_def)
  have e2: "c2 = join ?nl (?ls @ ?lf)"
  proof (cases "?lf = []")
    case True
    then show ?thesis by (simp add: c2_def e1)
  next
    case False
    then have "length (splitlines result_failed) > 1" by simp
    then show ?thesis using False assms join_append [of ?ls ?lf ?nl] by (simp add: c2_def e1)
  qed
  have e3: \<open>c3 = join ?nl ((?ls @ ?lf) @ map ((@) ''"","",'') ?lu)\<close>
  proof (cases "?lu = []")
    case True
    then show ?thesis by (simp add: c3_def e2)
  next
    case False
    then have "length (splitlines result_unprocessed) > 1" by simp
    then have \<open>c3 = c2 @ ?nl @ join ?nl (map ((@) ''"","",'') ?lu)\<close>
      using join_prefixed [OF False, of ?nl \<open>''"","",''\<close>]
      by (simp add: c3_def empty_columns_eq)
    also have \<open>\<dots> = join ?nl ((?ls @ ?lf) @ map ((@) ''"","",'') ?lu)\<close>
      unfolding e2 using False assms by (intro join_append) simp_all
    finally show ?thesis .
  qed
  show ?thesis using m e3 by (simp add: merged_lines_def)
qed

lemma merged_lines_no_linebreak:
  assumes "l \<in> set (merged_lines result_success result_failed result_unprocessed)"
    and "c \<in> set l"
  shows "\<not> is_linebreak c"
proof -
  from assms(1) consider
      "l \<in> set (splitlines result_success)"
    | "l \<in> set (splitlines result_failed)"
    | r where "r \<in> set (splitlines result_unprocessed)" \<open>l = ''"","",'' @ r\<close>
    unfolding merged_lines_def by (auto dest: in_set_dropD)
  then show ?thesis
  proof cases
    case 1
    from splitlines_no_linebreak [OF this assms(2)] show ?thesis .
  next
    case 2
    from splitlines_no_linebreak [OF this assms(2)] show ?thesis .
  next
    case 3
    from assms(2) 3(2) have \<open>c \<in> set ''"","",'' \<or> c \<in> set r\<close> by auto
    then show ?thesis
    proof
      assume \<open>c \<in> set ''"","",''\<close>
      then show ?thesis by (auto simp: is_linebreak_def)
    next
      assume "c \<in> set r"
      from splitlines_no_linebreak [OF 3(1) this] show ?thesis .
    qed
  qed
qed

lemma splitlines_merged:
  "splitlines (join ''\<newline>'' (merged_lines s f u)) =
     (if merged_lines s f u \<noteq> [] \<and> last (merged_lines s f u) = []
      then butlast (merged_lines s f u) else merged_lines s f u)"
  by (rule splitlines_join) (blast dest: merged_lines_no_linebreak)

lemma merge_results_short_partition:
  assumes "length (splitlines result_failed) \<le> 1" and "length (splitlines result_unprocessed) \<le> 1"
  shows "merge_results result_success result_failed result_unprocessed =
           merge_results result_success [] []"
  using assms by (simp add: merge_results_def split: list.splits)

text \<open>
  The lines of the merged body, in terms of the lines of the three bodies: their number,
  when the success body has no blank line and the failed body has none after its first
  line, and the lines that come from the unprocessed body.
\<close>

lemma merged_lines_count:
  assumes "splitlines result_success \<noteq> []"
    and "[] \<notin> set (splitlines result_success)"
    and "[] \<notin> set (drop 1 (splitlines result_failed))"
  shows "\<exists>combined_result.
           merge_results result_success result_failed result_unprocessed = Inr combined_result \<and>
           length (splitlines combined_result) =
             1 + length (drop 1 (splitlines result_success))
               + length (drop 1 (splitlines result_failed))
               + length (drop 1 (splitlines result_unprocessed))"
proof -
  let ?m = "merged_lines result_success result_failed result_unprocessed"
  have "[] \<notin> set ?m"
    using assms(2,3) unfolding merged_lines_def by (auto dest: in_set_dropD)
  moreover have ne: "?m \<noteq> []"
    using assms(1) by (simp add: merged_lines_def)
  ultimately have "last ?m \<noteq> []"
    using last_in_set [of ?m] by metis
  then have "splitlines (join ''\<newline>'' ?m) = ?m"
    by (simp add: splitlines_merged)
  moreover have "length ?m = 1 + length (drop 1 (splitlines result_success))
               + length (drop 1 (splitlines result_failed))
               + length (drop 1 (splitlines result_unprocessed))"
    using assms(1) by (cases "splitlines result_success") (simp_all add: merged_lines_def)
  ultimately show ?thesis
    using merge_results_lines [OF assms(1)] by simp
qed

lemma merged_lines_unprocessed:
  assumes "splitlines result_success \<noteq> []"
  shows \<open>\<exists>combined_result.
           merge_results result_success result_failed result_unprocessed = Inr combined_result \<and>
           drop (1 + length (drop 1 (splitlines result_success))
                   + length (drop 1 (splitlines result_failed)))
             (splitlines combined_result)
             = map (\<lambda>row. ''"","",'' @ row) (drop 1 (splitlines result_unprocessed))\<close>
proof -
  let ?m = "merged_lines result_success result_failed result_unprocessed"
  let ?k = "1 + length (drop 1 (splitlines result_success))
              + length (drop 1 (splitlines result_failed))"
  let ?u = \<open>map (\<lambda>row. ''"","",'' @ row) (drop 1 (splitlines result_unprocessed))\<close>
  have k: "?k = length (splitlines result_success @ drop 1 (splitlines result_failed))"
    using assms by (cases "splitlines result_success") simp_all
  have m: "?m = (splitlines result_success @ drop 1 (splitlines result_failed)) @ ?u"
    by (simp add: merged_lines_def)
  have d: "drop ?k ?m = ?u"
    unfolding k m by simp
  have "drop ?k (splitlines (join ''\<newline>'' ?m)) = ?u"
  proof (cases "?u = []")
    case True
    then have "length ?m = ?k" unfolding k m by simp
    then have "length (splitlines (join ''\<newline>'' ?m)) \<le> ?k"
      unfolding splitlines_merged by simp
    then show ?thesis using True by simp
  next
    case False
    then have "last ?m = last ?u"
      unfolding m by (simp only: last_append if_False)
    moreover have "last ?u \<noteq> []"
      using False unfolding last_map [OF False [unfolded map_is_Nil_conv]] by simp
    ultimately have "splitlines (join ''\<newline>'' ?m) = ?m"
      by (simp add: splitlines_merged)
    with d show ?thesis by simp
  qed
  then show ?thesis
    using merge_results_lines [OF assms] by simp
qed

text \<open>The lines of a partition body whose header and rows hold no line break.\<close>

lemma splitlines_lines:
  "list_all plain_line ls \<Longrightarrow> splitlines (concat (map (\<lambda>l. l @ [CHR 0x0A]) ls)) = ls"
proof (induction ls)
  case Nil
  show ?case by simp
next
  case (Cons l ls)
  then have "\<forall>c \<in> set l. \<not> is_linebreak c"
    by (simp add: plain_line_def list_ex_iff)
  from splitlines_line [OF this] Cons show ?case by simp
qed

lemma splitlines_partition_body:
  "list_all plain_line (header # rows) \<Longrightarrow>
     splitlines (partition_body header rows) = header # rows"
  unfolding partition_body_def by (rule splitlines_lines)

subsection \<open>Claims about the result merger\<close>

text \<open>
  C4. The claim: for a job whose success, failed and unprocessed partitions hold a header
  line and \<open>S\<close>, \<open>F\<close> and \<open>U\<close> data rows, the merged body has exactly \<open>1 + S + F + U\<close>
  lines. The merger works on the lines of the bodies, as \<^verbatim>\<open>splitlines\<close> cuts them, not
  on their rows. Below the success partition holds one data row, whose last field is
  quoted and holds a line feed; the failed and unprocessed partitions hold no row. The
  merged body has three lines, not \<open>1 + 1 + 0 + 0\<close>.
\<close>

theorem merge_results_counts_lines_not_rows:
  \<open>merge_results
       (partition_body ''sf__Id,sf__Created,Name,Address''
          [''001,true,a,"1 Main St\<newline>Apt 2"''])
       (partition_body ''sf__Id,sf__Error,Name,Address'' [])
       (partition_body ''Name,Address'' [])
     = Inr ''sf__Id,sf__Created,Name,Address\<newline>001,true,a,"1 Main St\<newline>Apt 2"'' \<and>
   splitlines ''sf__Id,sf__Created,Name,Address\<newline>001,true,a,"1 Main St\<newline>Apt 2"''
     = [''sf__Id,sf__Created,Name,Address'', ''001,true,a,"1 Main St'', ''Apt 2"''] \<and>
   length [''sf__Id,sf__Created,Name,Address'', ''001,true,a,"1 Main St'', ''Apt 2"'']
     \<noteq> 1 + length [''001,true,a,"1 Main St\<newline>Apt 2"'']
         + length ([] :: string list) + length ([] :: string list)\<close>
  by (simp add: merge_results_def partition_body_def is_linebreak_def)

text \<open>
  C4, amended. When no header line and no data row of the three partitions holds a
  character at which \<^verbatim>\<open>splitlines\<close> breaks a line, the header line of the success
  partition is not empty and no data row of the success and failed partitions is empty
  (such a row carries the result columns), the merger succeeds and the merged body has
  exactly \<open>1 + S + F + U\<close> lines, for the \<open>S\<close>, \<open>F\<close> and \<open>U\<close> data rows of the partitions.
\<close>

theorem merge_results_row_count:
  assumes "list_all plain_line (header_s # rows_s @ header_f # rows_f @ header_u # rows_u)"
    and "header_s \<noteq> []"
    and "[] \<notin> set rows_s"
    and "[] \<notin> set rows_f"
  shows "\<exists>combined_result.
           merge_results (partition_body header_s rows_s) (partition_body header_f rows_f)
               (partition_body header_u rows_u) = Inr combined_result \<and>
           length (splitlines combined_result)
             = 1 + length rows_s + length rows_f + length rows_u"
proof -
  from assms(1) have s: "splitlines (partition_body header_s rows_s) = header_s # rows_s"
    and f: "splitlines (partition_body header_f rows_f) = header_f # rows_f"
    and u: "splitlines (partition_body header_u rows_u) = header_u # rows_u"
    by (simp_all add: splitlines_partition_body)
  have 1: "splitlines (partition_body header_s rows_s) \<noteq> []"
    unfolding s by simp
  have 2: "[] \<notin> set (splitlines (partition_body header_s rows_s))"
    unfolding s using assms(2,3) by auto
  have 3: "[] \<notin> set (drop 1 (splitlines (partition_body header_f rows_f)))"
    unfolding f using assms(4) by simp
  from merged_lines_count [OF 1 2 3, of "partition_body header_u rows_u"]
  show ?thesis
    unfolding s f u by simp
qed

theorem merge_results_row_count_witness:
  \<open>\<exists>combined_result.
     merge_results (partition_body ''sf__Id,sf__Created,Name'' [''001,true,a''])
         (partition_body ''sf__Id,sf__Error,Name'' ['',DUPLICATE,b''])
         (partition_body ''Name'' [''c'', ''d'']) = Inr combined_result \<and>
     length (splitlines combined_result) = 1 + 1 + 1 + 2\<close>
  using merge_results_row_count
    [of \<open>''sf__Id,sf__Created,Name''\<close> \<open>[''001,true,a'']\<close>
        \<open>''sf__Id,sf__Error,Name''\<close> \<open>['',DUPLICATE,b'']\<close> \<open>''Name''\<close> \<open>[''c'', ''d'']\<close>]
  by (simp add: plain_line_def is_linebreak_def)

text \<open>
  C5. The claim: every unprocessed row appears in the merged body with two empty fields
  appended after its original columns. The code joins the unprocessed rows with
  \<^verbatim>\<open>'\n"","",'\<close>, which puts the two empty quoted fields in front of each row, where the
  success and failed bodies carry their two result columns. At the input below the
  unprocessed row \<^verbatim>\<open>b,c\<close> becomes the line \<^verbatim>\<open>"","",b,c\<close>, which does not begin with
  \<^verbatim>\<open>b,c\<close>.
\<close>

theorem merge_results_pads_in_front:
  \<open>merge_results ''sf__Id,sf__Created,Name,Tag\<newline>001,true,a,t\<newline>''
       ''sf__Id,sf__Error,Name,Tag\<newline>'' ''Name,Tag\<newline>b,c\<newline>''
     = Inr ''sf__Id,sf__Created,Name,Tag\<newline>001,true,a,t\<newline>"","",b,c'' \<and>
   splitlines ''sf__Id,sf__Created,Name,Tag\<newline>001,true,a,t\<newline>"","",b,c''
     = [''sf__Id,sf__Created,Name,Tag'', ''001,true,a,t'', ''"","",b,c''] \<and>
   \<not> prefix ''b,c'' ''"","",b,c''\<close>
  by (simp add: merge_results_def empty_columns_def is_linebreak_def)

text \<open>
  C5, amended. When no header line and no data row of the three partitions holds a
  character at which \<^verbatim>\<open>splitlines\<close> breaks a line, the lines of the merged body after
  the header, the success rows and the failed rows are the unprocessed rows in order, each
  of them one line: the text \<^verbatim>\<open>"","",\<close> followed by the text of the row unchanged. The two
  empty fields lead the row.
\<close>

theorem merge_results_unprocessed_rows:
  assumes "list_all plain_line (header_s # rows_s @ header_f # rows_f @ header_u # rows_u)"
  shows \<open>\<exists>combined_result.
           merge_results (partition_body header_s rows_s) (partition_body header_f rows_f)
               (partition_body header_u rows_u) = Inr combined_result \<and>
           drop (1 + length rows_s + length rows_f) (splitlines combined_result)
             = map (\<lambda>row. ''"","",'' @ row) rows_u\<close>
proof -
  from assms have s: "splitlines (partition_body header_s rows_s) = header_s # rows_s"
    and f: "splitlines (partition_body header_f rows_f) = header_f # rows_f"
    and u: "splitlines (partition_body header_u rows_u) = header_u # rows_u"
    by (simp_all add: splitlines_partition_body)
  have 1: "splitlines (partition_body header_s rows_s) \<noteq> []"
    unfolding s by simp
  from merged_lines_unprocessed
    [OF 1, of "partition_body header_f rows_f" "partition_body header_u rows_u"]
  show ?thesis
    unfolding s f u by simp
qed

theorem merge_results_unprocessed_rows_witness:
  \<open>\<exists>combined_result.
     merge_results (partition_body ''sf__Id,sf__Created,Name,Tag'' [''001,true,a,t''])
         (partition_body ''sf__Id,sf__Error,Name,Tag'' [])
         (partition_body ''Name,Tag'' [''b,c'', ''d,e'']) = Inr combined_result \<and>
     drop 2 (splitlines combined_result) = [''"","",b,c'', ''"","",d,e'']\<close>
  using merge_results_unprocessed_rows
    [of \<open>''sf__Id,sf__Created,Name,Tag''\<close> \<open>[''001,true,a,t'']\<close>
        \<open>''sf__Id,sf__Error,Name,Tag''\<close> \<open>[]\<close> \<open>''Name,Tag''\<close> \<open>[''b,c'', ''d,e'']\<close>]
  by (simp add: plain_line_def is_linebreak_def numeral_2_eq_2)

text \<open>
  An unprocessed row that holds a line break is outside the amended statement, and the
  merger does not keep it: the row is cut at the break, also inside a quoted field, and
  each piece gets the two empty fields in front. Below, the row
  \<^verbatim>\<open>b,"2 High St<LF>Floor 3"\<close> comes out as the two lines \<^verbatim>\<open>"","",b,"2 High St\<close> and
  \<^verbatim>\<open>"","",Floor 3"\<close>, and the row \<^verbatim>\<open>b<FF>c\<close> as \<^verbatim>\<open>"","",b\<close> and \<^verbatim>\<open>"","",c\<close>.
\<close>

lemma merge_results_unprocessed_row_with_line_break:
  \<open>merge_results (partition_body ''sf__Id,sf__Created,Name,Address'' [])
       (partition_body ''sf__Id,sf__Error,Name,Address'' [])
       (partition_body ''Name,Address'' [''b,"2 High St\<newline>Floor 3"''])
     = Inr ''sf__Id,sf__Created,Name,Address\<newline>"","",b,"2 High St\<newline>"","",Floor 3"'' \<and>
   merge_results (partition_body ''sf__Id,sf__Created,Name'' [])
       (partition_body ''sf__Id,sf__Error,Name'' [])
       (partition_body ''Name'' [[CHR ''b'', CHR 0x0C, CHR ''c'']])
     = Inr ''sf__Id,sf__Created,Name\<newline>"","",b\<newline>"","",c''\<close>
  by (simp add: merge_results_def partition_body_def is_linebreak_def empty_columns_def)

text \<open>
  C6. The claim: an empty partition, header only or fully empty, contributes nothing and
  the merger still succeeds, also when the success body is fully empty. For the failed and
  unprocessed bodies this holds: the guards \<^verbatim>\<open>len(...) > 1\<close> skip them
  (\<open>merge_results_short_partition\<close>). The success body has no such guard:
  \<^verbatim>\<open>result_success.splitlines()[0]\<close> is evaluated first, and on an empty body it raises
  \<^verbatim>\<open>IndexError\<close>, whatever the other two bodies hold.
\<close>

theorem merge_results_empty_success_raises:
  "merge_results [] result_failed result_unprocessed = Inl IndexError"
  by (simp add: merge_results_def)

section \<open>Properties of the bulk operations\<close>

subsection \<open>A run stops at the first failed call\<close>

lemma run_ok_Inl:
  "run_ok evs (Some (Inl e :: error + 'a)) \<Longrightarrow> run_ok evs (Some (Inl e :: error + 'b))"
  unfolding run_ok_def by blast

lemma run_ok_Inr: "run_ok evs (Some (Inr x)) \<longleftrightarrow> \<not> list_ex failed_call evs"
  unfolding run_ok_def by auto

lemma run_ok_None: "run_ok evs None \<longleftrightarrow> \<not> list_ex failed_call evs"
  unfolding run_ok_def by auto

lemma run_ok_append:
  assumes "\<not> list_ex failed_call evs1" and "run_ok evs2 out"
  shows "run_ok (evs1 @ evs2) out"
proof -
  from assms(2) consider "\<not> list_ex failed_call evs2"
    | evs0 rq rs where "evs2 = evs0 @ [Call rq rs]" "\<not> list_ex failed_call evs0"
        "status_code rs \<ge> 300" "out = Some (Inl (exception_handler rs []))"
    unfolding run_ok_def by blast
  then show ?thesis
  proof cases
    case 1
    with assms(1) show ?thesis by (simp add: run_ok_def)
  next
    case 2
    have "evs1 @ evs2 = (evs1 @ evs0) @ [Call rq rs]" using 2(1) by simp
    moreover have "\<not> list_ex failed_call (evs1 @ evs0)" using assms(1) 2(2) by simp
    ultimately show ?thesis unfolding run_ok_def using 2(3,4) by blast
  qed
qed

lemma traced_succeed: "traced (succeed x)"
  by (simp add: traced_def succeed_def run_ok_def)

lemma traced_raise: "traced (raise e)"
  by (simp add: traced_def raise_def run_ok_def)

lemma traced_lift: "traced (lift r)"
  by (simp add: traced_def lift_def run_ok_def)

lemma traced_file_write: "traced (file_write name data)"
  by (simp add: traced_def file_write_def run_ok_def)

lemma traced_sleep: "traced (sleep wait)"
  by (simp add: traced_def sleep_def run_ok_def)

lemma traced_call_salesforce: "traced (call_salesforce session url' method data)"
  unfolding traced_def
proof
  fix w :: "'a world"
  let ?rq = "\<lparr>req_method = method, req_url = url', req_data = data\<rparr>"
  obtain result s' where s: "session (remote w) ?rq = (result, s')"
    by (metis surj_pair)
  have t: "trace (snd (call_salesforce session url' method data w)) = trace w @ [Call ?rq result]"
    by (simp add: call_salesforce_def session_request_def s)
  have "run_ok [Call ?rq result] (Some (fst (call_salesforce session url' method data w)))"
  proof (cases "status_code result \<ge> 300")
    case True
    then have "fst (call_salesforce session url' method data w) = Inl (exception_handler result [])"
      by (simp add: call_salesforce_def session_request_def s)
    with True show ?thesis unfolding run_ok_def by (intro disjI2 exI [of _ "[]"]) auto
  next
    case False
    then show ?thesis by (simp add: run_ok_def)
  qed
  with t show "\<exists>evs. trace (snd (call_salesforce session url' method data w)) = trace w @ evs \<and>
         run_ok evs (Some (fst (call_salesforce session url' method data w)))"
    by blast
qed

lemma traced_and_then:
  assumes "traced m" and "\<And>x. traced (f x)"
  shows "traced (and_then m f)"
  unfolding traced_def
proof
  fix w
  obtain r1 w1 where m: "m w = (r1, w1)" by (metis surj_pair)
  from assms(1) obtain e1 where e1: "trace w1 = trace w @ e1" "run_ok e1 (Some r1)"
    unfolding traced_def using m by (metis fst_conv snd_conv)
  show "\<exists>evs. trace (snd (and_then m f w)) = trace w @ evs
          \<and> run_ok evs (Some (fst (and_then m f w)))"
  proof (cases r1)
    case (Inl e)
    then have "and_then m f w = (Inl e, w1)" by (simp add: and_then_def m)
    with e1 Inl show ?thesis using run_ok_Inl by fastforce
  next
    case (Inr x)
    then have a: "and_then m f w = f x w1" by (simp add: and_then_def m)
    from assms(2) [of x] obtain e2 where e2: "trace (snd (f x w1)) = trace w1 @ e2"
      "run_ok e2 (Some (fst (f x w1)))"
      unfolding traced_def by blast
    from e1(2) Inr have "\<not> list_ex failed_call e1" by (simp add: run_ok_Inr)
    from run_ok_append [OF this e2(2)] e1(1) e2(1) a show ?thesis by auto
  qed
qed

lemma traced_result_json: "traced (result_json result)"
  by (simp add: result_json_def traced_raise traced_succeed split: option.split)

lemma traced_create_job: "traced (create_job session self operation name external_id_field)"
  unfolding create_job_def Let_def
  by (intro traced_and_then traced_call_salesforce traced_result_json)

lemma traced_add_batch: "traced (add_batch session self job_id data operation)"
  unfolding add_batch_def Let_def
  by (intro traced_and_then traced_call_salesforce traced_succeed)

lemma traced_close_job: "traced (close_job session self job_id)"
  unfolding close_job_def Let_def
  by (intro traced_and_then traced_call_salesforce traced_result_json)

lemma traced_get_job: "traced (get_job session self job_id)"
  unfolding get_job_def Let_def
  by (intro traced_and_then traced_call_salesforce traced_result_json)

lemma traced_get_job_results: "traced (get_job_results session self job_id)"
  unfolding get_job_results_def
  by (intro traced_and_then traced_call_salesforce traced_lift)

lemma traced_submit_batches:
  "traced (submit_batches session self name operation external_id_field batches job_ids)"
proof (induction batches arbitrary: job_ids)
  case Nil
  show ?case by (simp add: traced_succeed)
next
  case (Cons batch batches)
  show ?case
    unfolding submit_batches.simps
    by (intro traced_and_then traced_file_write traced_create_job traced_lift
          traced_add_batch traced_close_job Cons.IH)
qed

lemma length_pop: "i < length xs \<Longrightarrow> length (pop i xs) = length xs - 1"
  by (simp add: pop_def)

lemma traced_poll_pass: "traced (poll_pass session self i job_ids results)"
proof (induction "length job_ids - i" arbitrary: i job_ids results rule: less_induct)
  case less
  show ?case
  proof (cases "i < length job_ids")
    case False
    then show ?thesis by (subst poll_pass.simps) (simp add: traced_succeed)
  next
    case True
    have 1: "traced (poll_pass session self (Suc i) job_ids results)" for results
      using True by (intro less) simp
    have 2: "traced (poll_pass session self (Suc i) (pop i job_ids) results)" for results
      using True by (intro less) (simp add: length_pop)
    show ?thesis
      by (subst poll_pass.simps)
         (auto simp: True Let_def intro!: traced_and_then traced_get_job traced_lift
            traced_get_job_results 1 2)
  qed
qed

lemma poll_loop_traced:
  "\<exists>evs. trace (snd (poll_loop fuel session self wait job_ids results w)) = trace w @ evs
     \<and> run_ok evs (fst (poll_loop fuel session self wait job_ids results w))"
proof (induction fuel arbitrary: job_ids results w)
  case 0
  show ?case
    by (subst (1 2) poll_loop.simps) (simp add: run_ok_def)
next
  case (Suc fuel)
  show ?case
  proof (cases "job_ids = []")
    case True
    then show ?thesis
      by (subst (1 2) poll_loop.simps) (simp add: run_ok_def)
  next
    case False
    obtain r1 w1 where p: "poll_pass session self 0 job_ids results w = (r1, w1)"
      by (metis surj_pair)
    from traced_poll_pass [of session self 0 job_ids results] p
    obtain e1 where e1: "trace w1 = trace w @ e1" "run_ok e1 (Some r1)"
      unfolding traced_def by (metis fst_conv snd_conv)
    show ?thesis
    proof (cases r1)
      case (Inl e)
      with False p have "poll_loop (Suc fuel) session self wait job_ids results w
                           = (Some (Inl e), w1)"
        by (subst poll_loop.simps) simp
      with e1 Inl show ?thesis using run_ok_Inl by fastforce
    next
      case (Inr pr)
      obtain job_ids' results' where pr: "pr = (job_ids', results')" by (cases pr)
      let ?w2 = "snd (sleep wait w1)"
      from False p Inr pr
      have l: "poll_loop (Suc fuel) session self wait job_ids results w
                 = poll_loop fuel session self wait job_ids' results' ?w2"
        by (subst poll_loop.simps) simp
      from Suc.IH [of job_ids' results' ?w2] obtain e3 where
        e3: "trace (snd (poll_loop fuel session self wait job_ids' results' ?w2)) = trace ?w2 @ e3"
          "run_ok e3 (fst (poll_loop fuel session self wait job_ids' results' ?w2))"
        by blast
      have t2: "trace ?w2 = trace w @ e1 @ [Sleep wait]"
        using e1(1) by (simp add: sleep_def)
      from e1(2) Inr have "\<not> list_ex failed_call (e1 @ [Sleep wait])"
        by (simp add: run_ok_Inr)
      from run_ok_append [OF this e3(2)] e3(1) t2 show ?thesis
        unfolding l by auto
    qed
  qed
qed

lemma bulk_operation_traced:
  "\<exists>evs. trace (snd (bulk_operation fuel session self name operation data
                          external_id_field wait w)) = trace w @ evs
     \<and> run_ok evs (fst (bulk_operation fuel session self name operation data
                           external_id_field wait w))"
proof (cases "as_reader data")
  case (Inl e)
  then show ?thesis by (simp add: bulk_operation_def run_ok_def)
next
  case (Inr rows)
  obtain batches stop where sc: "split_csv rows (PyInt 100) = (batches, stop)"
    by (metis surj_pair)
  obtain r1 w1 where sb:
    "submit_batches session self name operation external_id_field batches [] w = (r1, w1)"
    by (metis surj_pair)
  from traced_submit_batches [of session self name operation external_id_field batches "[]"] sb
  obtain e1 where e1: "trace w1 = trace w @ e1" "run_ok e1 (Some r1)"
    unfolding traced_def by (metis fst_conv snd_conv)
  show ?thesis
  proof (cases r1)
    case (Inl e)
    with Inr sc sb have "bulk_operation fuel session self name operation data
                           external_id_field wait w = (Some (Inl e), w1)"
      by (simp add: bulk_operation_def)
    with e1 Inl show ?thesis using run_ok_Inl by fastforce
  next
    case job_ids: (Inr job_ids)
    then have clean: "\<not> list_ex failed_call e1"
      using e1(2) by (simp add: run_ok_Inr)
    show ?thesis
    proof (cases stop)
      case (Some e)
      with Inr sc sb job_ids have "bulk_operation fuel session self name operation data
                                     external_id_field wait w = (Some (Inl e), w1)"
        by (simp add: bulk_operation_def)
      with e1(1) clean show ?thesis by (auto simp: run_ok_def)
    next
      case None
      obtain r2 w2 where pl: "poll_loop fuel session self wait job_ids [] w1 = (r2, w2)"
        by (metis surj_pair)
      from poll_loop_traced [of fuel session self wait job_ids "[]" w1] pl
      obtain e2 where e2: "trace w2 = trace w1 @ e2" "run_ok e2 r2"
        by auto
      define out where "out = (case r2 of
          None \<Rightarrow> None
        | Some (Inl e) \<Rightarrow> Some (Inl e)
        | Some (Inr results) \<Rightarrow> Some (Inr (join ''\<newline>'' results)))"
      from None Inr sc sb job_ids pl
      have b: "bulk_operation fuel session self name operation data external_id_field wait w
                 = (out, w2)"
        by (simp add: bulk_operation_def out_def split: option.split sum.split)
      have "run_ok e2 out"
      proof (cases r2)
        case None
        with e2(2) show ?thesis by (simp add: out_def run_ok_None)
      next
        case (Some r)
        show ?thesis
        proof (cases r)
          case (Inl e)
          with Some e2(2) show ?thesis using run_ok_Inl by (fastforce simp: out_def)
        next
          case (Inr results)
          with Some e2(2) show ?thesis by (simp add: out_def run_ok_Inr)
        qed
      qed
      from run_ok_append [OF clean this] e1(1) e2(1) show ?thesis
        unfolding b by auto
    qed
  qed
qed

lemma run_ok_failed_call_last:
  assumes "run_ok evs out" and "Call rq rs \<in> set evs" and "status_code rs \<ge> 300"
  shows "out = Some (Inl (exception_handler rs [])) \<and> evs = butlast evs @ [Call rq rs]
           \<and> \<not> list_ex failed_call (butlast evs)"
proof -
  from assms(2,3) have "list_ex failed_call evs"
    unfolding list_ex_iff by force
  with assms(1) obtain evs0 rq' rs' where e: "evs = evs0 @ [Call rq' rs']"
    "\<not> list_ex failed_call evs0" "out = Some (Inl (exception_handler rs' []))"
    unfolding run_ok_def by blast
  from e(2) assms(3) have "Call rq rs \<notin> set evs0"
    unfolding list_ex_iff by force
  with assms(2) e(1) have "rq' = rq" "rs' = rs" by auto
  with e show ?thesis by simp
qed

subsection \<open>The first effects of a submission\<close>

lemma and_then_trace_prefix:
  assumes "trace (snd (m w)) = trace w @ pre" and "\<And>x. traced (f x)"
  shows "\<exists>evs. trace (snd (and_then m f w)) = trace w @ pre @ evs"
proof (cases "fst (m w)")
  case (Inl e)
  then have "and_then m f w = (Inl e, snd (m w))"
    by (cases "m w") (simp add: and_then_def)
  with assms(1) show ?thesis by simp
next
  case (Inr x)
  then have "and_then m f w = f x (snd (m w))"
    by (cases "m w") (simp add: and_then_def)
  moreover from assms(2) [of x] obtain evs where
    "trace (snd (f x (snd (m w)))) = trace (snd (m w)) @ evs"
    unfolding traced_def by blast
  ultimately show ?thesis using assms(1) by simp
qed

lemma create_job_trace:
  "\<exists>rs. trace (snd (create_job session self operation name external_id_field w)) =
     trace w @ [Call \<lparr>req_method = POST, req_url = bulk_url self,
                       req_data = JsonData
                         ([(''operation'', Some operation), (''object'', Some name),
                           (''contentType'', Some ''CSV''), (''lineEnding'', Some ''LF'')]
                          @ (if operation = ''upsert''
                             then [(''externalIdFieldName'', external_id_field)] else []))\<rparr> rs]"
proof -
  define payload where "payload =
     [(''operation'', Some operation), (''object'', Some name),
      (''contentType'', Some ''CSV''), (''lineEnding'', Some ''LF'')]
     @ (if operation = ''upsert'' then [(''externalIdFieldName'', external_id_field)] else [])"
  let ?rq = "\<lparr>req_method = POST, req_url = bulk_url self, req_data = JsonData payload\<rparr>"
  have c: "create_job session self operation name external_id_field =
             and_then (call_salesforce session (bulk_url self) POST (JsonData payload)) result_json"
    by (simp add: create_job_def Let_def payload_def)
  obtain rs s' where s: "session (remote w) ?rq = (rs, s')" by (metis surj_pair)
  have "trace (snd (call_salesforce session (bulk_url self) POST (JsonData payload) w)) =
          trace w @ [Call ?rq rs]"
    by (simp add: call_salesforce_def session_request_def s)
  moreover have "trace (snd (and_then m result_json w)) = trace (snd (m w))"
    for m :: "('a, response) action"
    by (cases "m w")
       (auto simp: and_then_def result_json_def raise_def succeed_def split: sum.split option.split)
  ultimately have "trace (snd (create_job session self operation name external_id_field w)) =
     trace w @ [Call ?rq rs]"
    unfolding c by simp
  then show ?thesis unfolding payload_def by blast
qed

lemma submit_batches_first_effects:
  "\<exists>rs evs. trace (snd (submit_batches session self name operation external_id_field
                           (batch # batches) job_ids w)) =
     trace w @ FileWrite ''batch.csv'' batch
       # Call \<lparr>req_method = POST, req_url = bulk_url self,
                req_data = JsonData
                  ([(''operation'', Some operation), (''object'', Some name),
                    (''contentType'', Some ''CSV''), (''lineEnding'', Some ''LF'')]
                   @ (if operation = ''upsert''
                      then [(''externalIdFieldName'', external_id_field)] else []))\<rparr> rs
       # evs"
proof -
  let ?w1 = "w\<lparr>trace := trace w @ [FileWrite ''batch.csv'' batch]\<rparr>"
  let ?k = "\<lambda>job. and_then (lift (getitem job ''id'')) (\<lambda>job_id.
     and_then (add_batch session self job_id batch operation) (\<lambda>_.
     and_then (close_job session self job_id) (\<lambda>_.
       submit_batches session self name operation external_id_field batches
         (job_ids @ [job_id]))))"
  have s: "submit_batches session self name operation external_id_field (batch # batches) job_ids w
         = and_then (create_job session self operation name external_id_field) ?k ?w1"
    by (simp add: and_then_def file_write_def)
  from create_job_trace [of session self operation name external_id_field ?w1]
  obtain rs where c: "trace (snd (create_job session self operation name external_id_field ?w1)) =
     trace ?w1 @ [Call \<lparr>req_method = POST, req_url = bulk_url self,
                       req_data = JsonData
                         ([(''operation'', Some operation), (''object'', Some name),
                           (''contentType'', Some ''CSV''), (''lineEnding'', Some ''LF'')]
                          @ (if operation = ''upsert''
                             then [(''externalIdFieldName'', external_id_field)] else []))\<rparr> rs]"
    by blast
  have k: "traced (?k job)" for job
    by (intro traced_and_then traced_lift traced_add_batch traced_close_job
          traced_submit_batches)
  from and_then_trace_prefix
    [where m = "create_job session self operation name external_id_field" and w = ?w1
       and f = ?k, OF c k]
  show ?thesis
    unfolding s by auto
qed

subsection \<open>Claims about the scheduler and the operations\<close>

text \<open>
  C7. The claim: in every polling pass each job in the live list is queried exactly once,
  in list order, terminal jobs are removed and their results fetched at once, and passes
  repeat with a sleep between them until the list is empty. The pass removes a finished
  job with \<^verbatim>\<open>job_ids.pop(i)\<close> while \<^verbatim>\<open>enumerate(job_ids)\<close> is iterating over the same list:
  the job that followed moves to index \<open>i\<close> and the iterator goes on at \<open>i + 1\<close>. Below,
  two jobs are live and both are complete. The first pass asks for the state of the first
  job only and fetches its results; the second job is asked for only after the sleep, in
  the second pass.
\<close>

theorem poll_loop_skips_job_after_finished_job:
  "fst
     (poll_loop 2 scripted contacts 5 [Some ''750A'', Some ''750B''] []
        (start [json_response 200 [(''state'', Some ''JobComplete'')],
                text_response 200 ''h\<newline>a\<newline>'',
                text_response 200 ''h\<newline>'',
                text_response 200 ''h\<newline>'',
                json_response 200 [(''state'', Some ''JobComplete'')],
                text_response 200 ''h\<newline>b\<newline>'',
                text_response 200 ''h\<newline>'',
                text_response 200 ''h\<newline>'']))
     = Some (Inr [''h\<newline>a'', ''h\<newline>b'']) \<and>
   steps_of (trace (snd
     (poll_loop 2 scripted contacts 5 [Some ''750A'', Some ''750B''] []
        (start [json_response 200 [(''state'', Some ''JobComplete'')],
                text_response 200 ''h\<newline>a\<newline>'',
                text_response 200 ''h\<newline>'',
                text_response 200 ''h\<newline>'',
                json_response 200 [(''state'', Some ''JobComplete'')],
                text_response 200 ''h\<newline>b\<newline>'',
                text_response 200 ''h\<newline>'',
                text_response 200 ''h\<newline>'']))))
     = [Requested GET ''https://sf.example/jobs/ingest/750A'',
             Requested GET ''https://sf.example/jobs/ingest/750A/successfulResults/'',
             Requested GET ''https://sf.example/jobs/ingest/750A/failedResults/'',
             Requested GET ''https://sf.example/jobs/ingest/750A/unprocessedrecords/'',
             Slept 5,
             Requested GET ''https://sf.example/jobs/ingest/750B'',
             Requested GET ''https://sf.example/jobs/ingest/750B/successfulResults/'',
             Requested GET ''https://sf.example/jobs/ingest/750B/failedResults/'',
             Requested GET ''https://sf.example/jobs/ingest/750B/unprocessedrecords/'',
             Slept 5]"
  by code_simp

text \<open>
  C8. Whatever the remote service does: if a request of a bulk operation is answered with
  a status of 300 or more, the operation ends with the exception that
  \<^verbatim>\<open>exception_handler\<close> builds from that response, of the class the status selects, and
  that request is the last effect of the operation: no request, file write or sleep follows
  it, and no earlier request had failed. The theorem is about every request of the run, so
  it covers the create, upload, close, status and result requests alike, and it holds of a
  run that the bound on the polling passes cuts short as well.
\<close>

theorem bulk_operation_aborts_on_failed_call:
  assumes "trace (snd (bulk_operation fuel session self name operation data
                        external_id_field wait w)) = trace w @ evs"
    and "Call rq rs \<in> set evs"
    and "status_code rs \<ge> 300"
  shows "fst (bulk_operation fuel session self name operation data external_id_field wait w)
         = Some (Inl (SalesforceError
                      (if status_code rs = 300 then SalesforceMoreThanOneRecord
                       else if status_code rs = 400 then SalesforceMalformedRequest
                       else if status_code rs = 401 then SalesforceExpiredSession
                       else if status_code rs = 403 then SalesforceRefusedRequest
                       else if status_code rs = 404 then SalesforceResourceNotFound
                       else SalesforceGeneralError)
                      (url rs) (status_code rs) []
                      (case json_body rs of
                         Some j \<Rightarrow> JsonContent j
                       | None \<Rightarrow> TextContent (content rs))))
         \<and> evs = butlast evs @ [Call rq rs]
         \<and> \<not> list_ex failed_call (butlast evs)"
proof -
  from bulk_operation_traced [of fuel session self name operation data external_id_field wait w]
    assms(1)
  have "run_ok evs (fst (bulk_operation fuel session self name operation data
                           external_id_field wait w))"
    by auto
  from run_ok_failed_call_last [OF this assms(2,3)]
  show ?thesis
    by (simp add: exception_handler_def exc_cls_def exc_map_def)
qed

text \<open>
  The case the claim singles out: the create-job request is answered with status 400. The
  operation ends with \<^verbatim>\<open>SalesforceMalformedRequest\<close>; the batch file had been written,
  the create-job request is the only request, and no upload follows.
\<close>

theorem bulk_operation_aborts_on_failed_call_witness:
  "bulk_operation 0 scripted contacts ''Contact'' ''insert'' (RecordList [[(''Name'', ''a'')]])
       None 5 (start [text_response 400 ''bad'']) =
     (Some (Inl (SalesforceError SalesforceMalformedRequest ''https://sf.example/jobs/ingest/''
                   400 [] (TextContent ''bad''))),
           \<lparr>remote = [],
              trace =
                [FileWrite ''batch.csv'' ''Name\<newline>a\<newline>'',
                 Call \<lparr>req_method = POST, req_url = ''https://sf.example/jobs/ingest/'',
                        req_data = JsonData [(''operation'', Some ''insert''),
                                             (''object'', Some ''Contact''),
                                             (''contentType'', Some ''CSV''),
                                             (''lineEnding'', Some ''LF'')]\<rparr>
                      \<lparr>url = ''https://sf.example/jobs/ingest/'', status_code = 400,
                         content = ''bad'', json_body = None\<rparr>]\<rparr>)
   \<and> \<not> list_ex failed_call [FileWrite ''batch.csv'' ''Name\<newline>a\<newline>'']"
proof -
  let ?rq = "\<lparr>req_method = POST, req_url = ''https://sf.example/jobs/ingest/'',
                req_data = JsonData [(''operation'', Some ''insert''),
                                     (''object'', Some ''Contact''),
                                     (''contentType'', Some ''CSV''),
                                     (''lineEnding'', Some ''LF'')]\<rparr>"
  let ?rs = "\<lparr>url = ''https://sf.example/jobs/ingest/'', status_code = 400,
                content = ''bad'', json_body = None\<rparr>"
  let ?evs = "[FileWrite ''batch.csv'' ''Name\<newline>a\<newline>'', Call ?rq ?rs]"
  let ?out = "Some (Inl (SalesforceError SalesforceMalformedRequest
                  ''https://sf.example/jobs/ingest/'' 400 [] (TextContent ''bad'')))
              :: (error + string) option"
  have run: "bulk_operation 0 scripted contacts ''Contact'' ''insert''
               (RecordList [[(''Name'', ''a'')]]) None 5 (start [text_response 400 ''bad''])
             = (?out, \<lparr>remote = [], trace = ?evs\<rparr>)"
    by code_simp
  have tr: "trace (snd (bulk_operation 0 scripted contacts ''Contact'' ''insert''
               (RecordList [[(''Name'', ''a'')]]) None 5 (start [text_response 400 ''bad''])))
              = trace (start [text_response 400 ''bad'']) @ ?evs"
    unfolding run by (simp add: start_def)
  have mem: "Call ?rq ?rs \<in> set ?evs" by simp
  have st: "status_code ?rs \<ge> 300" by simp
  from bulk_operation_aborts_on_failed_call [OF tr mem st] run
  show ?thesis by simp
qed

text \<open>
  C9. The claim: \<^verbatim>\<open>upsert\<close> without an \<^verbatim>\<open>external_id_field\<close> fails at once with a
  configuration error, before any request, and the missing field never reaches the remote
  service. The code has no such check and no such exception: \<^verbatim>\<open>upsert\<close> hands the value
  to \<^verbatim>\<open>_bulk_operation\<close>, and \<^verbatim>\<open>_create_job\<close> puts it into the payload. Below the field
  is \<^verbatim>\<open>None\<close> and the remote service accepts the job: the operation returns the merged
  result, and its first request is the create-job request with
  \<^verbatim>\<open>externalIdFieldName\<close> \<^verbatim>\<open>null\<close>.
\<close>

theorem upsert_without_external_id_field_is_sent:
  "fst
     (upsert 1 scripted contacts (RecordList [[(''Email'', ''a@b.c'')]]) None
        (start [json_response 200 [(''id'', Some ''750A''), (''state'', Some ''Open'')],
                text_response 201 [],
                json_response 200 [(''id'', Some ''750A''), (''state'', Some ''UploadComplete'')],
                json_response 200 [(''id'', Some ''750A''), (''state'', Some ''JobComplete'')],
                text_response 200 ''sf__Id,sf__Created,Email\<newline>003,true,a@b.c\<newline>'',
                text_response 200 ''sf__Id,sf__Error,Email\<newline>'',
                text_response 200 ''Email\<newline>'']))
     = Some (Inr ''sf__Id,sf__Created,Email\<newline>003,true,a@b.c'') \<and>
   first_request (trace (snd
     (upsert 1 scripted contacts (RecordList [[(''Email'', ''a@b.c'')]]) None
        (start [json_response 200 [(''id'', Some ''750A''), (''state'', Some ''Open'')],
                text_response 201 [],
                json_response 200 [(''id'', Some ''750A''), (''state'', Some ''UploadComplete'')],
                json_response 200 [(''id'', Some ''750A''), (''state'', Some ''JobComplete'')],
                text_response 200 ''sf__Id,sf__Created,Email\<newline>003,true,a@b.c\<newline>'',
                text_response 200 ''sf__Id,sf__Error,Email\<newline>'',
                text_response 200 ''Email\<newline>'']))))
     = Some \<lparr>req_method = POST, req_url = ''https://sf.example/jobs/ingest/'',
               req_data = JsonData [(''operation'', Some ''upsert''),
                                    (''object'', Some ''Contact''),
                                    (''contentType'', Some ''CSV''),
                                    (''lineEnding'', Some ''LF''),
                                    (''externalIdFieldName'', None)]\<rparr>"
  by code_simp

text \<open>
  C9, amended. \<^verbatim>\<open>upsert\<close> does not check \<^verbatim>\<open>external_id_field\<close> locally. For data that
  the reader turns into a header row and at least one data row, ending without an error
  (so no record is refused by \<^verbatim>\<open>json_list_to_file\<close> and no field is over the reader's
  limit), its first effects are the write of the batch file and the create-job request,
  whose payload carries \<^verbatim>\<open>externalIdFieldName\<close> with the value given, \<^verbatim>\<open>null\<close> when it is
  \<^verbatim>\<open>None\<close>. Whether the job is refused is for the remote service to say.
\<close>

theorem upsert_sends_external_id_field_as_given:
  assumes "as_reader data = Inr (header # line # rest, None)"
  shows "\<exists>batch rs evs.
           trace (snd (upsert fuel session self data external_id_field w))
             = trace w @ FileWrite ''batch.csv'' batch
             # Call \<lparr>req_method = POST, req_url = bulk_url self,
                      req_data = JsonData [(''operation'', Some ''upsert''),
                                           (''object'', Some (object_name self)),
                                           (''contentType'', Some ''CSV''),
                                           (''lineEnding'', Some ''LF''),
                                           (''externalIdFieldName'', external_id_field)]\<rparr> rs
             # evs"
proof -
  let ?rq = "\<lparr>req_method = POST, req_url = bulk_url self,
                req_data = JsonData [(''operation'', Some ''upsert''),
                                     (''object'', Some (object_name self)),
                                     (''contentType'', Some ''CSV''),
                                     (''lineEnding'', Some ''LF''),
                                     (''externalIdFieldName'', external_id_field)]\<rparr>"
  from split_rows_shape [of "line # rest" "100 * 1024 * 1024" header]
  obtain ys c where "split_csv (header # line # rest, None) (PyInt 100) = (ys @ [c], None)"
    by (auto simp: split_csv_def max_bytes_of_def)
  then obtain batch batches where
    sc: "split_csv (header # line # rest, None) (PyInt 100) = (batch # batches, None)"
    by (cases ys) auto
  obtain r1 w1 where sb:
    "submit_batches session self (object_name self) ''upsert'' external_id_field
       (batch # batches) [] w = (r1, w1)"
    by (metis surj_pair)
  from submit_batches_first_effects
    [of session self "object_name self" "''upsert''" external_id_field batch batches "[]" w] sb
  obtain rs e1 where e1: "trace w1 = trace w @ FileWrite ''batch.csv'' batch # Call ?rq rs # e1"
    by auto
  have "\<exists>e2. trace (snd (upsert fuel session self data external_id_field w)) = trace w1 @ e2"
  proof (cases r1)
    case (Inl e)
    with assms sc sb show ?thesis
      by (simp add: upsert_def bulk_operation_def del: submit_batches.simps)
  next
    case (Inr job_ids)
    obtain r2 w2 where pl: "poll_loop fuel session self 5 job_ids [] w1 = (r2, w2)"
      by (metis surj_pair)
    with Inr assms sc sb have "snd (upsert fuel session self data external_id_field w) = w2"
      by (simp add: upsert_def bulk_operation_def del: submit_batches.simps
            split: option.split sum.split)
    with poll_loop_traced [of fuel session self 5 job_ids "[]" w1] pl show ?thesis
      by auto
  qed
  with e1 show ?thesis by auto
qed

theorem upsert_sends_external_id_field_as_given_witness:
  "as_reader (RecordList [[(''Email'', ''a@b.c'')]]) = Inr ([[''Email''], [''a@b.c'']], None) \<and>
   upsert 0 scripted contacts (RecordList [[(''Email'', ''a@b.c'')]]) None
       (start [text_response 400 ''no external id'']) =
     (Some (Inl (SalesforceError SalesforceMalformedRequest ''https://sf.example/jobs/ingest/''
                   400 [] (TextContent ''no external id''))),
           \<lparr>remote = [],
              trace =
                [FileWrite ''batch.csv'' ''Email\<newline>a@b.c\<newline>'',
                 Call \<lparr>req_method = POST, req_url = ''https://sf.example/jobs/ingest/'',
                        req_data = JsonData [(''operation'', Some ''upsert''),
                                             (''object'', Some ''Contact''),
                                             (''contentType'', Some ''CSV''),
                                             (''lineEnding'', Some ''LF''),
                                             (''externalIdFieldName'', None)]\<rparr>
                      \<lparr>url = ''https://sf.example/jobs/ingest/'', status_code = 400,
                         content = ''no external id'', json_body = None\<rparr>]\<rparr>) \<and>
   (\<exists>batch rs evs.
      [FileWrite ''batch.csv'' ''Email\<newline>a@b.c\<newline>'',
       Call \<lparr>req_method = POST, req_url = ''https://sf.example/jobs/ingest/'',
              req_data = JsonData [(''operation'', Some ''upsert''),
                                   (''object'', Some ''Contact''),
                                   (''contentType'', Some ''CSV''),
                                   (''lineEnding'', Some ''LF''),
                                   (''externalIdFieldName'', None)]\<rparr>
            \<lparr>url = ''https://sf.example/jobs/ingest/'', status_code = 400,
               content = ''no external id'', json_body = None\<rparr>]
      = FileWrite ''batch.csv'' batch
          # Call \<lparr>req_method = POST, req_url = ''https://sf.example/jobs/ingest/'',
                   req_data = JsonData [(''operation'', Some ''upsert''),
                                        (''object'', Some ''Contact''),
                                        (''contentType'', Some ''CSV''),
                                        (''lineEnding'', Some ''LF''),
                                        (''externalIdFieldName'', None)]\<rparr> rs
          # evs)"
proof -
  have rd: "as_reader (RecordList [[(''Email'', ''a@b.c'')]])
              = Inr ([''Email''] # [''a@b.c''] # [], None)"
    by code_simp
  have run: "upsert 0 scripted contacts (RecordList [[(''Email'', ''a@b.c'')]]) None
       (start [text_response 400 ''no external id'']) =
     (Some (Inl (SalesforceError SalesforceMalformedRequest ''https://sf.example/jobs/ingest/''
                   400 [] (TextContent ''no external id''))),
           \<lparr>remote = [],
              trace =
                [FileWrite ''batch.csv'' ''Email\<newline>a@b.c\<newline>'',
                 Call \<lparr>req_method = POST, req_url = ''https://sf.example/jobs/ingest/'',
                        req_data = JsonData [(''operation'', Some ''upsert''),
                                             (''object'', Some ''Contact''),
                                             (''contentType'', Some ''CSV''),
                                             (''lineEnding'', Some ''LF''),
                                             (''externalIdFieldName'', None)]\<rparr>
                      \<lparr>url = ''https://sf.example/jobs/ingest/'', status_code = 400,
                         content = ''no external id'', json_body = None\<rparr>]\<rparr>)"
    by code_simp
  from upsert_sends_external_id_field_as_given
    [OF rd, of 0 scripted contacts None "start [text_response 400 ''no external id'']"] rd run
  show ?thesis by (simp add: start_def contacts_def)
qed

text \<open>
  C10. Each of the four operations, called with an empty list of records, raises before
  any request: \<^verbatim>\<open>json_list_to_file\<close> writes nothing, \<^verbatim>\<open>next(data)\<close> in \<^verbatim>\<open>split_csv\<close>
  finds no header row, and the \<^verbatim>\<open>StopIteration\<close> leaves the generator as a
  \<^verbatim>\<open>RuntimeError\<close>. The world is as it was: nothing was requested, written or slept.
\<close>

theorem empty_record_list_raises_before_any_request:
  "insert_records fuel session self (RecordList []) w = (Some (Inl RuntimeError), w) \<and>
   update fuel session self (RecordList []) w = (Some (Inl RuntimeError), w) \<and>
   upsert fuel session self (RecordList []) external_id_field w = (Some (Inl RuntimeError), w) \<and>
   delete fuel session self (RecordList []) w = (Some (Inl RuntimeError), w)"
  by (simp add: insert_records_def update_def upsert_def delete_def bulk_operation_def
        as_reader_def json_list_to_file_def csv_reader_def parse_reset_def split_csv_def
        max_bytes_of_def succeed_def)

end
